theory Spec2Isabelle
  imports Main "HOL-Library.Sublist"
begin

section \<open>The goesd supervisor (src/initutils/goesd/goesd.go)\<close>

text \<open>
  \<^verbatim>\<open>goesd.Main\<close> checks the effective user id and then either starts the daemons
  (no argument) or stops every other process running the same executable
  (\<^verbatim>\<open>stop\<close>). Everything it does goes through the operating system or through the
  packages \<^verbatim>\<open>command\<close>, \<^verbatim>\<open>sockfile\<close> and \<^verbatim>\<open>pidfile\<close>, so a run is modelled as
  the list of the calls it made, in the order it made them, together with the
  error it returned. What a call answers is taken from a \<open>world\<close>: a record of
  functions from the calls made so far (and the arguments) to the answer, so that the
  same question may be answered differently at different moments of a run.
\<close>

subsection \<open>Errors and calls\<close>

text \<open>
  A Go \<^verbatim>\<open>error\<close> is either the package's own \<^verbatim>\<open>ErrNotRoot\<close> or an error with a
  message (from \<^verbatim>\<open>fmt.Errorf\<close>, the operating system or another package).
\<close>

datatype error = ErrNotRoot | Error string

datatype signal = SIGTERM | SIGKILL

datatype event =
    CallGeteuid
  | CallHook
  | CallStat string
  | CallMain "string list"
  | CallGetenv string
  | CallReadlink string
  | CallGetpid
  | CallGlob string
  | CallKill int signal
  | CallSleep int
  | CallSockRemoveAll
  | CallPidRemoveAll

text \<open>
  \<open>command_Daemon\<close> is the registry \<^verbatim>\<open>command.Daemon\<close>, a Go map from the daemon's
  name to its level; \<open>range_Daemon\<close> is the sequence of entries that the
  \<^verbatim>\<open>range\<close> statement of this run yields. Go leaves the iteration order of a map
  unspecified; \<open>range_ok\<close> says what it does promise for a map that is not
  modified meanwhile, that every entry is yielded exactly once.

  \<open>sockfile_RemoveAll\<close> and \<open>pidfile_RemoveAll\<close> give the outcome of the removal
  (\<open>None\<close> when everything was removed, an error when the file system refused).
\<close>

record world =
  os_Geteuid :: "event list \<Rightarrow> int"
  Hook :: "event list \<Rightarrow> error option"
  os_Stat :: "event list \<Rightarrow> string \<Rightarrow> error option"
  command_Main :: "event list \<Rightarrow> string list \<Rightarrow> error option"
  os_Getenv :: "event list \<Rightarrow> string \<Rightarrow> string"
  command_Daemon :: "string \<rightharpoonup> int"
  range_Daemon :: "(string \<times> int) list"
  os_Readlink :: "event list \<Rightarrow> string \<Rightarrow> error + string"
  os_Getpid :: "event list \<Rightarrow> int"
  filepath_Glob :: "event list \<Rightarrow> string \<Rightarrow> error + string list"
  sockfile_RemoveAll :: "event list \<Rightarrow> error option"
  pidfile_RemoveAll :: "event list \<Rightarrow> error option"

definition range_ok :: "world \<Rightarrow> bool" where
  "range_ok w \<longleftrightarrow>
     distinct (map fst (range_Daemon w)) \<and> map_of (range_Daemon w) = command_Daemon w"

subsection \<open>The library functions the code calls on strings\<close>

text \<open>
  Go strings are byte sequences. \<^verbatim>\<open>strings.Fields\<close> splits around runs of the
  characters of \<^verbatim>\<open>unicode.IsSpace\<close>; \<open>space_runes\<close> lists their UTF-8 encodings
  (tab to carriage return, space, U+0085, U+00A0, U+1680, U+2000 to U+200A, U+2028,
  U+2029, U+202F, U+205F, U+3000).
\<close>

definition space_runes :: "string list" where
  "space_runes =
     [[CHR 0x09], [CHR 0x0A], [CHR 0x0B], [CHR 0x0C], [CHR 0x0D], [CHR 0x20],
      [CHR 0xC2, CHR 0x85], [CHR 0xC2, CHR 0xA0],
      [CHR 0xE1, CHR 0x9A, CHR 0x80],
      [CHR 0xE2, CHR 0x80, CHR 0x80], [CHR 0xE2, CHR 0x80, CHR 0x81],
      [CHR 0xE2, CHR 0x80, CHR 0x82], [CHR 0xE2, CHR 0x80, CHR 0x83],
      [CHR 0xE2, CHR 0x80, CHR 0x84], [CHR 0xE2, CHR 0x80, CHR 0x85],
      [CHR 0xE2, CHR 0x80, CHR 0x86], [CHR 0xE2, CHR 0x80, CHR 0x87],
      [CHR 0xE2, CHR 0x80, CHR 0x88], [CHR 0xE2, CHR 0x80, CHR 0x89],
      [CHR 0xE2, CHR 0x80, CHR 0x8A],
      [CHR 0xE2, CHR 0x80, CHR 0xA8], [CHR 0xE2, CHR 0x80, CHR 0xA9],
      [CHR 0xE2, CHR 0x80, CHR 0xAF], [CHR 0xE2, CHR 0x81, CHR 0x9F],
      [CHR 0xE3, CHR 0x80, CHR 0x80]]"

text \<open>The number of bytes of the white space character a string starts with, 0 for none.\<close>

definition space_width :: "string \<Rightarrow> nat" where
  "space_width s =
     (case find (\<lambda>r. take (length r) s = r) space_runes of
        None \<Rightarrow> 0
      | Some r \<Rightarrow> length r)"

text \<open>
  \<^verbatim>\<open>strings.Fields\<close>: \<open>cur\<close> is the field being read. A byte that starts no white
  space character belongs to the field; a white space character ends it.
\<close>

function Fields_from :: "string \<Rightarrow> string \<Rightarrow> string list" where
  "Fields_from cur [] = (if cur = [] then [] else [cur])"
| "Fields_from cur (c # cs) =
     (if space_width (c # cs) = 0 then Fields_from (cur @ [c]) cs
      else (if cur = [] then [] else [cur])
           @ Fields_from [] (drop (space_width (c # cs) - 1) cs))"
  by pat_completeness auto
termination
  by (relation "measure (\<lambda>(cur, s). length s)") auto

definition Fields :: "string \<Rightarrow> string list" where
  "Fields s = Fields_from [] s"

text \<open>\<^verbatim>\<open>strings.TrimSuffix\<close> and \<^verbatim>\<open>strings.TrimPrefix\<close>.\<close>

definition TrimSuffix :: "string \<Rightarrow> string \<Rightarrow> string" where
  "TrimSuffix s suf =
     (if length suf \<le> length s \<and> drop (length s - length suf) s = suf
      then take (length s - length suf) s else s)"

definition TrimPrefix :: "string \<Rightarrow> string \<Rightarrow> string" where
  "TrimPrefix s pre =
     (if take (length pre) s = pre then drop (length pre) s else s)"

text \<open>
  \<^verbatim>\<open>fmt.Sscan(spid, &pid)\<close> with \<^verbatim>\<open>pid\<close> an \<^verbatim>\<open>int\<close>: leading white space is
  skipped, then an optional sign, then the digits; a leading \<^verbatim>\<open>0\<close> announces an
  octal number and \<^verbatim>\<open>0x\<close> a hexadecimal one (the Go releases of 2016, the year
  of the source; later ones also read \<^verbatim>\<open>0b\<close>, \<^verbatim>\<open>0o\<close> and underscores). What
  follows the number is left unread. With no digit, or a value outside 64 bits, the
  scan fails and stores nothing (\<open>None\<close>). The entries of /proc are decimal
  numbers without a leading zero, \<^verbatim>\<open>self\<close> and \<^verbatim>\<open>thread-self\<close>.
\<close>

function skipSpace :: "string \<Rightarrow> string" where
  "skipSpace s = (if space_width s = 0 then s else skipSpace (drop (space_width s) s))"
  by pat_completeness auto
termination
proof (relation "measure length")
  show "wf (measure length)" by simp
next
  fix s :: string
  assume nz: "space_width s \<noteq> 0"
  then obtain r where r: "find (\<lambda>r. take (length r) s = r) space_runes = Some r"
    by (auto simp: space_width_def split: option.splits)
  then have "take (length r) s = r"
    by (auto simp: find_Some_iff)
  then have "length r \<le> length s"
    by (metis length_take min.cobounded1)
  with r nz have "0 < space_width s \<and> space_width s \<le> length s"
    by (simp add: space_width_def)
  then have "length s - space_width s < length s"
    by arith
  then show "(drop (space_width s) s, s) \<in> measure length"
    by simp
qed

declare skipSpace.simps [simp del]

definition digit_val :: "char \<Rightarrow> int" where
  "digit_val c =
     (let n = (of_char c :: int) in
      if 48 \<le> n \<and> n \<le> 57 then n - 48
      else if 97 \<le> n \<and> n \<le> 102 then n - 87
      else if 65 \<le> n \<and> n \<le> 70 then n - 55
      else 16)"

definition parse_digits :: "int \<Rightarrow> string \<Rightarrow> int" where
  "parse_digits base ds = foldl (\<lambda>a c. a * base + digit_val c) 0 ds"

definition in_int64 :: "int \<Rightarrow> int option" where
  "in_int64 v = (if - (2 ^ 63) \<le> v \<and> v < 2 ^ 63 then Some v else None)"

definition Sscan_int :: "string \<Rightarrow> int option" where
  "Sscan_int s =
     (let s1 = skipSpace s in
      if s1 = [] then None
      else
        let neg = (hd s1 = CHR ''-'');
            s2 = (if hd s1 = CHR ''+'' \<or> hd s1 = CHR ''-'' then tl s1 else s1);
            sgn = (\<lambda>n. if neg then - n else n)
        in case s2 of
             [] \<Rightarrow> None
           | c # s3 \<Rightarrow>
               if c = CHR ''0'' then
                 (let base = (if s3 \<noteq> [] \<and> (hd s3 = CHR ''x'' \<or> hd s3 = CHR ''X'')
                              then 16 else 8);
                      s4 = (if base = 16 then tl s3 else s3)
                  in in_int64 (sgn (parse_digits base
                        (takeWhile (\<lambda>d. digit_val d < base) s4))))
               else if digit_val c < 10 then
                 in_int64 (sgn (parse_digits 10 (takeWhile (\<lambda>d. digit_val d < 10) s2)))
               else None)"

text \<open>
  \<^verbatim>\<open>fmt.Sprint("/proc/", pid, "/stat")\<close>: the integer in decimal between the two
  strings, with no space added since its neighbours are strings.
\<close>

fun digits10 :: "nat \<Rightarrow> string" where
  "digits10 n =
     (if n < 10 then [''0123456789'' ! n]
      else digits10 (n div 10) @ [''0123456789'' ! (n mod 10)])"

declare digits10.simps [simp del]

definition itoa :: "int \<Rightarrow> string" where
  "itoa i = (if i < 0 then CHR ''-'' # digits10 (nat (- i)) else digits10 (nat i))"

definition proc_stat :: "int \<Rightarrow> string" where
  "proc_stat pid = ''/proc/'' @ itoa pid @ ''/stat''"

text \<open>
  \<^verbatim>\<open>fmt.Errorf("%v: unexpected", args)\<close>: a string slice prints as its elements
  between brackets, separated by one space.
\<close>

fun join_space :: "string list \<Rightarrow> string" where
  "join_space [] = []"
| "join_space [x] = x"
| "join_space (x # y # ys) = x @ '' '' @ join_space (y # ys)"

definition Errorf_unexpected :: "string list \<Rightarrow> error" where
  "Errorf_unexpected args = Error (''['' @ join_space args @ '']: unexpected'')"

subsection \<open>The constants\<close>

definition EtcGoesd :: string where
  "EtcGoesd = ''/etc/goesd''"

definition Second :: int where
  "Second = 1000000000"

subsection \<open>stop\<close>

text \<open>
  The first loop of \<^verbatim>\<open>stop\<close> (lines 108 to 120): every glob result whose link reads
  as \<open>thisprog\<close> gives a pid, the number scanned from the path between
  \<^verbatim>\<open>/proc/\<close> and \<^verbatim>\<open>/exe\<close>, or 0 (the zero value of \<^verbatim>\<open>var pid int\<close>) when the scan
  fails, its error being ignored; the pid is kept unless it is \<open>thispid\<close>.
\<close>

definition exe_pid :: "string \<Rightarrow> int" where
  "exe_pid exe =
     (case Sscan_int (TrimPrefix (TrimSuffix exe ''/exe'') ''/proc/'') of
        None \<Rightarrow> 0
      | Some pid \<Rightarrow> pid)"

fun match_loop ::
  "world \<Rightarrow> string \<Rightarrow> int \<Rightarrow> event list \<Rightarrow> string list \<Rightarrow> int list \<Rightarrow> int list \<times> event list"
where
  "match_loop w thisprog thispid tr [] pids = (pids, tr)"
| "match_loop w thisprog thispid tr (exe # exes) pids =
     (case os_Readlink w tr exe of
        Inl err \<Rightarrow> match_loop w thisprog thispid (tr @ [CallReadlink exe]) exes pids
      | Inr prog \<Rightarrow>
          if prog \<noteq> thisprog
          then match_loop w thisprog thispid (tr @ [CallReadlink exe]) exes pids
          else if exe_pid exe \<noteq> thispid
          then match_loop w thisprog thispid (tr @ [CallReadlink exe]) exes
                 (pids @ [exe_pid exe])
          else match_loop w thisprog thispid (tr @ [CallReadlink exe]) exes pids)"

text \<open>
  The two signalling loops (lines 121 to 126 and 128 to 133) differ in the signal
  only: a pid whose \<^verbatim>\<open>/proc/<pid>/stat\<close> can be examined is sent the signal; what
  \<^verbatim>\<open>syscall.Kill\<close> returns is ignored.
\<close>

fun kill_loop :: "world \<Rightarrow> signal \<Rightarrow> event list \<Rightarrow> int list \<Rightarrow> event list" where
  "kill_loop w sig tr [] = tr"
| "kill_loop w sig tr (pid # pids) =
     (if os_Stat w tr (proc_stat pid) = None
      then kill_loop w sig (tr @ [CallStat (proc_stat pid), CallKill pid sig]) pids
      else kill_loop w sig (tr @ [CallStat (proc_stat pid)]) pids)"

text \<open>Lines 121 to 133: the first loop, the sleep, the second loop.\<close>

definition terminate :: "world \<Rightarrow> event list \<Rightarrow> int list \<Rightarrow> event list" where
  "terminate w tr pids =
     kill_loop w SIGKILL (kill_loop w SIGTERM tr pids @ [CallSleep (2 * Second)]) pids"

text \<open>Lines 134 and 135: both calls are statements, nothing they return is looked at.\<close>

definition reclaim :: "world \<Rightarrow> event list \<Rightarrow> event list" where
  "reclaim w tr =
     (let r1 = sockfile_RemoveAll w tr;
          tr1 = tr @ [CallSockRemoveAll];
          r2 = pidfile_RemoveAll w tr1
      in tr1 @ [CallPidRemoveAll])"

definition stop :: "world \<Rightarrow> event list \<Rightarrow> error option \<times> event list" where
  "stop w tr =
     (case os_Readlink w tr ''/proc/self/exe'' of
        Inl err \<Rightarrow> (Some err, tr @ [CallReadlink ''/proc/self/exe''])
      | Inr thisprog \<Rightarrow>
          let tr1 = tr @ [CallReadlink ''/proc/self/exe''];
              thispid = os_Getpid w tr1;
              tr2 = tr1 @ [CallGetpid]
          in case filepath_Glob w tr2 ''/proc/*/exe'' of
               Inl err \<Rightarrow> (Some err, tr2 @ [CallGlob ''/proc/*/exe''])
             | Inr exes \<Rightarrow>
                 let (pids, tr3) =
                       match_loop w thisprog thispid (tr2 @ [CallGlob ''/proc/*/exe'']) exes []
                 in (None, reclaim w (terminate w tr3 pids)))"

subsection \<open>Main\<close>

text \<open>
  The loop over \<^verbatim>\<open>command.Daemon\<close> (lines 85 to 93), over the entries in the order
  the \<^verbatim>\<open>range\<close> statement yields them.
\<close>

fun daemon_loop ::
  "world \<Rightarrow> event list \<Rightarrow> (string \<times> int) list \<Rightarrow> error option \<times> event list"
where
  "daemon_loop w tr [] = (None, tr)"
| "daemon_loop w tr ((daemon, lvl) # rest) =
     (if lvl < 0 then daemon_loop w tr rest
      else case command_Main w tr [daemon] of
             Some err \<Rightarrow> (Some err, tr @ [CallMain [daemon]])
           | None \<Rightarrow> daemon_loop w (tr @ [CallMain [daemon]]) rest)"

text \<open>
  Lines 67 to 84, once for \<^verbatim>\<open>redisd\<close> with \<^verbatim>\<open>REDISD\<close> and once for \<^verbatim>\<open>machined\<close>
  with \<^verbatim>\<open>MACHINED\<close>: the call that is made, given the value of the variable.
\<close>

definition daemon_args :: "string \<Rightarrow> string \<Rightarrow> string list" where
  "daemon_args name val =
     (let args = Fields val in
      if length args > 0 then [name] @ args else [name])"

text \<open>
  Lines 57 to 94 of \<^verbatim>\<open>Main\<close>, what it does with no argument: the hook, the
  sourcing of /etc/goesd when \<^verbatim>\<open>os.Stat\<close> finds it, \<^verbatim>\<open>redisd\<close>, \<^verbatim>\<open>machined\<close>,
  the loop; every error returns at once.
\<close>

definition start :: "world \<Rightarrow> event list \<Rightarrow> error option \<times> event list" where
  "start w tr =
     (case Hook w tr of
        Some err \<Rightarrow> (Some err, tr @ [CallHook])
      | None \<Rightarrow>
          let tr1 = tr @ [CallHook];
              found = (os_Stat w tr1 EtcGoesd = None);
              tr2 = tr1 @ [CallStat EtcGoesd];
              sourced = (if found then command_Main w tr2 [''source'', EtcGoesd] else None);
              tr3 = (if found then tr2 @ [CallMain [''source'', EtcGoesd]] else tr2)
          in case sourced of
               Some err \<Rightarrow> (Some err, tr3)
             | None \<Rightarrow>
                 let redisd = daemon_args ''redisd'' (os_Getenv w tr3 ''REDISD'');
                     tr4 = tr3 @ [CallGetenv ''REDISD'']
                 in case command_Main w tr4 redisd of
                      Some err \<Rightarrow> (Some err, tr4 @ [CallMain redisd])
                    | None \<Rightarrow>
                        let tr5 = tr4 @ [CallMain redisd];
                            machined = daemon_args ''machined'' (os_Getenv w tr5 ''MACHINED'');
                            tr6 = tr5 @ [CallGetenv ''MACHINED'']
                        in case command_Main w tr6 machined of
                             Some err \<Rightarrow> (Some err, tr6 @ [CallMain machined])
                           | None \<Rightarrow>
                               daemon_loop w (tr6 @ [CallMain machined]) (range_Daemon w))"

definition Main :: "world \<Rightarrow> string list \<Rightarrow> error option \<times> event list" where
  "Main w args =
     (if os_Geteuid w [] \<noteq> 0 then (Some ErrNotRoot, [CallGeteuid])
      else if length args > 0 then
        (if hd args = ''stop'' then stop w [CallGeteuid]
         else (Some (Errorf_unexpected args), [CallGeteuid]))
      else start w [CallGeteuid])"

subsection \<open>Reading a run\<close>

text \<open>
  The startup actions are the call of the hook and the calls of \<^verbatim>\<open>command.Main\<close>.
  \<open>outcome w h e\<close> is what the action \<open>e\<close> returned when it was called after the
  calls \<open>h\<close>, and \<open>failures w h tr\<close> replays the calls \<open>tr\<close> made after \<open>h\<close> and
  lists the actions that returned an error, each with its position in the run.
\<close>

fun is_action :: "event \<Rightarrow> bool" where
  "is_action CallHook = True"
| "is_action (CallMain args) = True"
| "is_action e = False"

fun outcome :: "world \<Rightarrow> event list \<Rightarrow> event \<Rightarrow> error option" where
  "outcome w h CallHook = Hook w h"
| "outcome w h (CallMain args) = command_Main w h args"
| "outcome w h e = None"

fun failures :: "world \<Rightarrow> event list \<Rightarrow> event list \<Rightarrow> (nat \<times> error) list" where
  "failures w h [] = []"
| "failures w h (e # tr) =
     (case outcome w h e of None \<Rightarrow> [] | Some err \<Rightarrow> [(length h, err)])
     @ failures w (h @ [e]) tr"

text \<open>The names of the entries whose level is not negative, in the order given.\<close>

definition enabled :: "(string \<times> int) list \<Rightarrow> string list" where
  "enabled ds = map fst (filter (\<lambda>d. \<not> snd d < 0) ds)"

text \<open>
  The startup sequence of the specification in a given world: the hook, the sourcing
  of /etc/goesd when the file is there, the store daemon with the fields of
  \<^verbatim>\<open>REDISD\<close>, the configuration daemon with the fields of \<^verbatim>\<open>MACHINED\<close>, then
  the enabled daemons of the registry as the range yields them. The variables are
  read at the moment the code reads them when nothing has failed before.
\<close>

definition source_step :: "world \<Rightarrow> event list" where
  "source_step w =
     (if os_Stat w [CallGeteuid, CallHook] EtcGoesd = None
      then [CallMain [''source'', EtcGoesd]] else [])"

definition before_store :: "world \<Rightarrow> event list" where
  "before_store w = [CallGeteuid, CallHook, CallStat EtcGoesd] @ source_step w"

definition store_step :: "world \<Rightarrow> event" where
  "store_step w =
     CallMain (''redisd'' # Fields (os_Getenv w (before_store w) ''REDISD''))"

definition config_step :: "world \<Rightarrow> event" where
  "config_step w =
     CallMain (''machined'' # Fields (os_Getenv w
       (before_store w @ [CallGetenv ''REDISD'', store_step w]) ''MACHINED''))"

definition startup_sequence :: "world \<Rightarrow> event list" where
  "startup_sequence w =
     [CallHook] @ source_step w @ [store_step w, config_step w]
     @ map (\<lambda>d. CallMain [d]) (enabled (range_Daemon w))"

text \<open>
  \<open>launches d tr\<close>: how many calls of \<^verbatim>\<open>command.Main\<close> in the run \<open>tr\<close> have
  \<open>d\<close> as the name of the command, whatever the arguments that follow it.
\<close>

fun launch_of :: "string \<Rightarrow> event \<Rightarrow> bool" where
  "launch_of d (CallMain (name # args)) = (name = d)"
| "launch_of d e = False"

definition launches :: "string \<Rightarrow> event list \<Rightarrow> nat" where
  "launches d tr = length (filter (launch_of d) tr)"

text \<open>
  A token: a non-empty string none of whose bytes is the first byte of a white space
  character. Every string of printable ASCII characters other than the space is one.
\<close>

definition token :: "string \<Rightarrow> bool" where
  "token t \<longleftrightarrow> t \<noteq> [] \<and> (\<forall>c\<in>set t. c \<notin> set (map hd space_runes))"

subsection \<open>Example worlds\<close>

text \<open>
  \<open>world_A\<close>: the caller is root, /etc/goesd does not exist, no variable is set,
  every launch succeeds, the registry is foo at level 0, bar at level -1 and baz at
  level 1, and the range yields them in this order. Nothing in /proc can be read.
\<close>

definition world_A :: world where
  "world_A =
     \<lparr>os_Geteuid = (\<lambda>h. 0),
      Hook = (\<lambda>h. None),
      os_Stat = (\<lambda>h path. Some (Error ''no such file or directory'')),
      command_Main = (\<lambda>h args. None),
      os_Getenv = (\<lambda>h name. []),
      command_Daemon = map_of [(''foo'', 0), (''bar'', - 1), (''baz'', 1)],
      range_Daemon = [(''foo'', 0), (''bar'', - 1), (''baz'', 1)],
      os_Readlink = (\<lambda>h path. Inl (Error ''no such file or directory'')),
      os_Getpid = (\<lambda>h. 100),
      filepath_Glob = (\<lambda>h pat. Inr []),
      sockfile_RemoveAll = (\<lambda>h. None),
      pidfile_RemoveAll = (\<lambda>h. None)\<rparr>"

text \<open>The same registry and environment, the range yielding baz first.\<close>

definition world_A' :: world where
  "world_A' = world_A\<lparr>range_Daemon := [(''baz'', 1), (''bar'', - 1), (''foo'', 0)]\<rparr>"

text \<open>\<^verbatim>\<open>REDISD="--bind 127.0.0.1"\<close>.\<close>

definition world_B :: world where
  "world_B =
     world_A\<lparr>os_Getenv :=
       (\<lambda>h name. if name = ''REDISD'' then ''--bind 127.0.0.1'' else [])\<rparr>"

text \<open>The caller is not root.\<close>

definition world_D :: world where
  "world_D = world_A\<lparr>os_Geteuid := (\<lambda>h. 1000)\<rparr>"

text \<open>The launch of foo fails.\<close>

definition world_F :: world where
  "world_F =
     world_A\<lparr>command_Main :=
       (\<lambda>h args. if args = [''foo''] then Some (Error ''exit status 1'') else None)\<rparr>"

text \<open>As \<open>world_A\<close>, with a registry that lists redisd at level 0 and nothing else.\<close>

definition world_S :: world where
  "world_S =
     world_A\<lparr>command_Daemon := map_of [(''redisd'', 0)],
             range_Daemon := [(''redisd'', 0)]\<rparr>"

text \<open>
  \<open>world_C\<close>: the supervisor is process 100 running /usr/sbin/goesd, and so are
  processes 10 and 11; process 1 runs something else and the link of process 2
  cannot be read. Process 11 stays alive; process 10 is alive until the supervisor
  has slept.
\<close>

definition world_C :: world where
  "world_C =
     world_A\<lparr>
       os_Readlink :=
         (\<lambda>h path.
            if path \<in> {''/proc/self/exe'', ''/proc/thread-self/exe'', ''/proc/10/exe'',
                        ''/proc/100/exe'', ''/proc/11/exe''}
            then Inr ''/usr/sbin/goesd''
            else if path = ''/proc/1/exe'' then Inr ''/sbin/init''
            else Inl (Error ''no such file or directory'')),
       filepath_Glob :=
         (\<lambda>h pat. Inr [''/proc/1/exe'', ''/proc/10/exe'', ''/proc/100/exe'',
                         ''/proc/11/exe'', ''/proc/2/exe'', ''/proc/self/exe'',
                         ''/proc/thread-self/exe'']),
       os_Stat :=
         (\<lambda>h path.
            if path = ''/proc/11/stat'' then None
            else if path = ''/proc/10/stat'' \<and> CallSleep (2 * Second) \<notin> set h then None
            else Some (Error ''no such file or directory''))\<rparr>"

text \<open>As \<open>world_C\<close>, with a file system that refuses the removal of the socket files.\<close>

definition world_R :: world where
  "world_R = world_C\<lparr>sockfile_RemoveAll := (\<lambda>h. Some (Error ''read-only file system''))\<rparr>"

text \<open>As \<open>world_C\<close>, with a glob that fails.\<close>

definition world_G :: world where
  "world_G = world_C\<lparr>filepath_Glob := (\<lambda>h pat. Inl (Error ''syntax error in pattern''))\<rparr>"

section \<open>Properties\<close>

subsection \<open>The privilege check\<close>

text \<open>
  C3. Whatever the arguments, when the effective user id is not 0, Main returns
  ErrNotRoot and has made no call but the one that read the user id: no hook, no
  sourcing, no daemon launch, no reading of /proc, no signal, no removal.
\<close>

theorem C3_not_root:
  "os_Geteuid w [] \<noteq> 0 \<Longrightarrow> Main w args = (Some ErrNotRoot, [CallGeteuid])"
  by (simp add: Main_def)

theorem C3_not_root_witness:
  "os_Geteuid world_D [] \<noteq> 0
   \<and> Main world_D [''stop''] = (Some ErrNotRoot, [CallGeteuid])
   \<and> Main world_D [] = (Some ErrNotRoot, [CallGeteuid])"
  using C3_not_root [of world_D "[''stop'']"] C3_not_root [of world_D "[]"]
  by (simp add: world_D_def world_A_def)

subsection \<open>The startup sequence\<close>

text \<open>Replaying a run in two parts.\<close>

lemma failures_append:
  "failures w h (xs @ ys) = failures w h xs @ failures w (h @ xs) ys"
  by (induction xs arbitrary: h) simp_all

lemma failures_bounds:
  "(i, e) \<in> set (failures w h xs) \<Longrightarrow> length h \<le> i \<and> i < length h + length xs"
proof (induction xs arbitrary: h)
  case Nil
  then show ?case by simp
next
  case (Cons x xs)
  from Cons.prems consider "outcome w h x = Some e \<and> i = length h"
    | "(i, e) \<in> set (failures w (h @ [x]) xs)"
    by (auto split: option.splits)
  then show ?case
  proof cases
    case 1
    then show ?thesis by simp
  next
    case 2
    from Cons.IH [OF this] show ?thesis by simp
  qed
qed

lemma failures_last:
  assumes f: "failures w [] T = [(length T - 1, e)]" and ne: "T \<noteq> []"
  shows "outcome w (butlast T) (last T) = Some e"
proof -
  from ne have T: "T = butlast T @ [last T]" by simp
  have split: "failures w [] T = failures w [] (butlast T)
      @ (case outcome w (butlast T) (last T) of None \<Rightarrow> []
         | Some err \<Rightarrow> [(length (butlast T), err)])"
    by (subst T, subst failures_append) simp
  show ?thesis
  proof (cases "outcome w (butlast T) (last T)")
    case None
    with split f have "failures w [] (butlast T) = [(length T - 1, e)]" by simp
    then have "(length T - 1, e) \<in> set (failures w [] (butlast T))" by simp
    from failures_bounds [OF this] show ?thesis by simp
  next
    case (Some e')
    with split f have "failures w [] (butlast T) @ [(length (butlast T), e')] = [(length T - 1, e)]"
      by simp
    then have "e' = e" by (cases "failures w [] (butlast T)") auto
    with Some show ?thesis by simp
  qed
qed

lemma enabled_Cons:
  "enabled ((d, l) # ds) = (if l < 0 then enabled ds else d # enabled ds)"
  by (simp add: enabled_def)

lemma enabled_Nil: "enabled [] = []"
  by (simp add: enabled_def)

lemma daemon_loop_run:
  "daemon_loop w tr ds = (r, T) \<Longrightarrow>
   \<exists>n\<le>length (enabled ds).
     T = tr @ map (\<lambda>d. CallMain [d]) (take n (enabled ds))
     \<and> failures w tr (map (\<lambda>d. CallMain [d]) (take n (enabled ds)))
         = (case r of None \<Rightarrow> [] | Some e \<Rightarrow> [(length tr + n - 1, e)])
     \<and> (r = None \<longrightarrow> n = length (enabled ds))
     \<and> (r \<noteq> None \<longrightarrow> 0 < n)"
proof (induction ds arbitrary: tr)
  case Nil
  then show ?case by (auto simp: enabled_Nil)
next
  case (Cons x ds)
  obtain d l where x: "x = (d, l)" by (cases x)
  show ?case
  proof (cases "l < 0")
    case True
    with Cons.prems x have "daemon_loop w tr ds = (r, T)" by simp
    from Cons.IH [OF this] show ?thesis using True x by (simp add: enabled_Cons)
  next
    case nonneg: False
    show ?thesis
    proof (cases "command_Main w tr [d]")
      case (Some e)
      with Cons.prems x nonneg have "r = Some e" "T = tr @ [CallMain [d]]" by auto
      then show ?thesis using nonneg x Some
        by (intro exI [of _ 1]) (simp add: enabled_Cons)
    next
      case None
      with Cons.prems x nonneg have "daemon_loop w (tr @ [CallMain [d]]) ds = (r, T)" by simp
      from Cons.IH [OF this] obtain n where n: "n \<le> length (enabled ds)"
        "T = (tr @ [CallMain [d]]) @ map (\<lambda>d. CallMain [d]) (take n (enabled ds))"
        "failures w (tr @ [CallMain [d]]) (map (\<lambda>d. CallMain [d]) (take n (enabled ds)))
           = (case r of None \<Rightarrow> [] | Some e \<Rightarrow> [(length (tr @ [CallMain [d]]) + n - 1, e)])"
        "r = None \<longrightarrow> n = length (enabled ds)" "r \<noteq> None \<longrightarrow> 0 < n"
        by blast
      show ?thesis
        using n nonneg x None
        by (intro exI [of _ "Suc n"]) (auto simp: enabled_Cons split: option.splits)
    qed
  qed
qed

lemma daemon_args_eq: "daemon_args name val = name # Fields val"
  by (cases "Fields val") (simp_all add: daemon_args_def)

lemma filter_action_launches:
  "filter is_action (map (\<lambda>d. CallMain [d]) ds) = map (\<lambda>d. CallMain [d]) ds"
  by (induction ds) simp_all

lemma start_run:
  assumes run: "start w [CallGeteuid] = (r, T)"
  shows "\<exists>K\<le>length (startup_sequence w).
           filter is_action T = take K (startup_sequence w)
           \<and> (r = None \<longrightarrow> K = length (startup_sequence w))
           \<and> (r \<noteq> None \<longrightarrow> 0 < K \<and> is_action (last T))
           \<and> T \<noteq> []
           \<and> failures w [] T = (case r of None \<Rightarrow> [] | Some e \<Rightarrow> [(length T - 1, e)])"
proof (cases "Hook w [CallGeteuid]")
  case (Some e)
  with run have "r = Some e" "T = [CallGeteuid, CallHook]"
    by (auto simp: start_def)
  then show ?thesis using Some
    by (intro exI [of _ 1]) (simp add: startup_sequence_def)
next
  case hook: None
  define src where "src = source_step w"
  define tr3 where "tr3 = [CallGeteuid, CallHook, CallStat EtcGoesd] @ src"
  define sourced where "sourced =
    (if os_Stat w [CallGeteuid, CallHook] EtcGoesd = None
     then command_Main w [CallGeteuid, CallHook, CallStat EtcGoesd] [''source'', EtcGoesd]
     else None)"
  have f3: "failures w [] tr3 = (case sourced of None \<Rightarrow> [] | Some e \<Rightarrow> [(length tr3 - 1, e)])"
    using hook by (simp add: tr3_def src_def source_step_def sourced_def split: option.splits)
  have a3: "filter is_action tr3 = [CallHook] @ src"
    by (simp add: tr3_def src_def source_step_def)
  show ?thesis
  proof (cases sourced)
    case (Some e)
    with run hook have "r = Some e" "T = tr3"
      by (auto simp: start_def Let_def sourced_def tr3_def src_def source_step_def
          split: if_splits)
    moreover from Some have "src = [CallMain [''source'', EtcGoesd]]"
      by (auto simp: sourced_def src_def source_step_def split: if_splits)
    ultimately show ?thesis using f3 a3 Some
      by (intro exI [of _ 2]) (simp add: startup_sequence_def src_def tr3_def)
  next
    case src_ok: None
    define tr4 where "tr4 = tr3 @ [CallGetenv ''REDISD'']"
    have store: "store_step w = CallMain (daemon_args ''redisd'' (os_Getenv w tr3 ''REDISD''))"
      by (simp add: store_step_def before_store_def daemon_args_eq tr3_def src_def)
    define redisd where "redisd = daemon_args ''redisd'' (os_Getenv w tr3 ''REDISD'')"
    have run4: "start w [CallGeteuid] =
      (case command_Main w tr4 redisd of
         Some err \<Rightarrow> (Some err, tr4 @ [CallMain redisd])
       | None \<Rightarrow>
         let tr5 = tr4 @ [CallMain redisd];
             machined = daemon_args ''machined'' (os_Getenv w tr5 ''MACHINED'');
             tr6 = tr5 @ [CallGetenv ''MACHINED'']
         in case command_Main w tr6 machined of
              Some err \<Rightarrow> (Some err, tr6 @ [CallMain machined])
            | None \<Rightarrow> daemon_loop w (tr6 @ [CallMain machined]) (range_Daemon w))"
      using hook src_ok
      unfolding start_def Let_def sourced_def tr3_def tr4_def src_def source_step_def
          redisd_def
      by (auto split: if_splits cong: option.case_cong)
    have f4: "failures w [] tr4 = []"
      using f3 src_ok by (simp add: tr4_def failures_append)
    have a4: "filter is_action tr4 = [CallHook] @ src"
      using a3 by (simp add: tr4_def)
    have len_src: "length src \<le> 1"
      by (simp add: src_def source_step_def)
    show ?thesis
    proof (cases "command_Main w tr4 redisd")
      case (Some e)
      with run run4 have "r = Some e" "T = tr4 @ [CallMain redisd]" by auto
      then show ?thesis using f4 a4 Some store
        by (intro exI [of _ "Suc (length src + 1)"])
           (simp add: startup_sequence_def failures_append redisd_def src_def)
    next
      case redisd_ok: None
      define tr5 where "tr5 = tr4 @ [CallMain redisd]"
      define machined where "machined = daemon_args ''machined'' (os_Getenv w tr5 ''MACHINED'')"
      define tr6 where "tr6 = tr5 @ [CallGetenv ''MACHINED'']"
      have config: "config_step w = CallMain machined"
        by (simp add: config_step_def before_store_def machined_def daemon_args_eq tr5_def tr4_def tr3_def
            src_def store redisd_def)
      have f6: "failures w [] tr6 = []"
        using f4 redisd_ok by (simp add: tr6_def tr5_def failures_append)
      have a6: "filter is_action tr6 = [CallHook] @ src @ [store_step w]"
        using a4 by (simp add: tr6_def tr5_def store redisd_def)
      show ?thesis
      proof (cases "command_Main w tr6 machined")
        case (Some e)
        with run run4 redisd_ok have "r = Some e" "T = tr6 @ [CallMain machined]"
          by (auto simp: Let_def tr5_def tr6_def machined_def)
        then show ?thesis using f6 a6 Some config
          by (intro exI [of _ "Suc (length src + 2)"])
             (simp add: startup_sequence_def failures_append src_def)
      next
        case machined_ok: None
        define tr7 where "tr7 = tr6 @ [CallMain machined]"
        have f7: "failures w [] tr7 = []"
          using f6 machined_ok by (simp add: tr7_def failures_append)
        have a7: "filter is_action tr7 = [CallHook] @ src @ [store_step w, config_step w]"
          using a6 by (simp add: tr7_def config)
        from run run4 redisd_ok machined_ok
        have "daemon_loop w tr7 (range_Daemon w) = (r, T)"
          by (auto simp: Let_def tr5_def tr6_def tr7_def machined_def)
        from daemon_loop_run [OF this] obtain n where n:
          "n \<le> length (enabled (range_Daemon w))"
          "T = tr7 @ map (\<lambda>d. CallMain [d]) (take n (enabled (range_Daemon w)))"
          "failures w tr7 (map (\<lambda>d. CallMain [d]) (take n (enabled (range_Daemon w))))
             = (case r of None \<Rightarrow> [] | Some e \<Rightarrow> [(length tr7 + n - 1, e)])"
          "r = None \<longrightarrow> n = length (enabled (range_Daemon w))"
          "r \<noteq> None \<longrightarrow> 0 < n"
          by blast
        have len7: "length (filter is_action tr7) = length src + 3"
          using a7 by simp
        have "filter is_action T = take (Suc (length src + 2 + n)) (startup_sequence w)"
          using n(2) a7 
          by (simp add: startup_sequence_def filter_action_launches src_def take_map)
        moreover have "failures w [] T = (case r of None \<Rightarrow> [] | Some e \<Rightarrow> [(length T - 1, e)])"
          using n(1,2,3,5) f7 by (auto simp: failures_append min_absorb2 split: option.splits)
        moreover have "r \<noteq> None \<longrightarrow> is_action (last T)"
          using n(1,2,5) by (auto simp: last_map last_append take_eq_Nil)
        moreover have "T \<noteq> []" using n(2) by (simp add: tr7_def)
        moreover have "Suc (length src + 2 + n) \<le> length (startup_sequence w)"
          using n(1) by (simp add: startup_sequence_def src_def)
        moreover have "r = None \<longrightarrow> Suc (length src + 2 + n) = length (startup_sequence w)"
          using n(4) by (simp add: startup_sequence_def src_def)
        ultimately show ?thesis
          by (intro exI [of _ "Suc (length src + 2 + n)"]) simp
      qed
    qed
  qed
qed

lemma daemon_loop_trace:
  "\<exists>n. snd (daemon_loop w tr ds) = tr @ map (\<lambda>d. CallMain [d]) (take n (enabled ds))"
proof -
  obtain r T where "daemon_loop w tr ds = (r, T)" by (cases "daemon_loop w tr ds")
  from daemon_loop_run [OF this] show ?thesis
    using \<open>daemon_loop w tr ds = (r, T)\<close> by auto
qed

lemma start_shape:
  assumes run: "start w [CallGeteuid] = (r, T)"
  shows "T = [CallGeteuid, CallHook] \<or> T = before_store w
    \<or> T = before_store w @ [CallGetenv ''REDISD'', store_step w]
    \<or> (\<exists>n. T = before_store w @ [CallGetenv ''REDISD'', store_step w,
                 CallGetenv ''MACHINED'', config_step w]
               @ map (\<lambda>d. CallMain [d]) (take n (enabled (range_Daemon w))))"
proof -
  have T: "T = snd (start w [CallGeteuid])" using run by simp
  obtain n where n: "snd (daemon_loop w
      (before_store w @ [CallGetenv ''REDISD'', store_step w,
                 CallGetenv ''MACHINED'', config_step w]) (range_Daemon w))
     = (before_store w @ [CallGetenv ''REDISD'', store_step w,
                 CallGetenv ''MACHINED'', config_step w])
       @ map (\<lambda>d. CallMain [d]) (take n (enabled (range_Daemon w)))"
    using daemon_loop_trace by blast
  show ?thesis
    unfolding T start_def Let_def
    using n
    by (auto simp: before_store_def source_step_def store_step_def config_step_def
        daemon_args_eq split: option.splits if_splits)
qed

lemma space_width_plain:
  "c \<notin> set (map hd space_runes) \<Longrightarrow> space_width (c # cs) = 0"
  by (simp add: space_width_def space_runes_def)

lemma space_width_space: "space_width (CHR '' '' # cs) = 1"
  by (simp add: space_width_def space_runes_def)

lemma Fields_from_plain:
  "\<forall>c\<in>set t. c \<notin> set (map hd space_runes) \<Longrightarrow>
   Fields_from cur (t @ rest) = Fields_from (cur @ t) rest"
  by (induction t arbitrary: cur) (simp_all add: space_width_plain)

lemma Fields_from_join:
  "\<forall>t\<in>set ts. token t \<Longrightarrow> Fields_from [] (join_space ts) = ts"
proof (induction ts rule: join_space.induct)
  case 1
  show ?case by simp
next
  case (2 x)
  then have "Fields_from [] (x @ []) = Fields_from ([] @ x) []"
    by (intro Fields_from_plain) (simp add: token_def)
  with 2 show ?case by (simp add: token_def)
next
  case (3 x y ys)
  from 3(2) have "Fields_from [] (x @ CHR '' '' # join_space (y # ys))
                  = Fields_from ([] @ x) (CHR '' '' # join_space (y # ys))"
    by (intro Fields_from_plain) (simp add: token_def)
  with 3 show ?case by (simp add: token_def space_width_space)
qed

lemma Fields_Nil: "Fields [] = []"
  by (simp add: Fields_def)

lemma Main_start: "os_Geteuid w [] = 0 \<Longrightarrow> Main w [] = start w [CallGeteuid]"
  by (simp add: Main_def)

lemma before_store_no_getenv: "CallGetenv v \<notin> set (before_store w)"
  by (simp add: before_store_def source_step_def)

lemma enabled_range_ok:
  assumes "range_ok w"
  shows "distinct (enabled (range_Daemon w))"
    and "set (enabled (range_Daemon w)) = {d. \<exists>l. command_Daemon w d = Some l \<and> 0 \<le> l}"
proof -
  from assms have d: "distinct (map fst (range_Daemon w))"
    and m: "map_of (range_Daemon w) = command_Daemon w"
    by (simp_all add: range_ok_def)
  show "distinct (enabled (range_Daemon w))"
    unfolding enabled_def using d by (rule distinct_map_filter)
  have "(d, l) \<in> set (range_Daemon w) \<longleftrightarrow> command_Daemon w d = Some l" for d l
    using d m by (metis map_of_eq_Some_iff)
  then show "set (enabled (range_Daemon w)) = {d. \<exists>l. command_Daemon w d = Some l \<and> 0 \<le> l}"
    by (force simp: enabled_def not_less)
qed


text \<open>Counting the calls of a command in a run and in the startup sequence.\<close>

lemma launch_of_action: "launch_of d e \<Longrightarrow> is_action e"
  by (cases "(d, e)" rule: launch_of.cases) simp_all

lemma launches_actions: "launches d (filter is_action tr) = launches d tr"
proof -
  have "(\<lambda>e. is_action e \<and> launch_of d e) = launch_of d"
    using launch_of_action by blast
  then show ?thesis by (simp add: launches_def)
qed

lemma launches_append: "launches d (xs @ ys) = launches d xs + launches d ys"
  by (simp add: launches_def)

lemma launches_enabled:
  "distinct ds \<Longrightarrow>
   launches d (map (\<lambda>x. CallMain [x]) ds) = (if d \<in> set ds then 1 else 0)"
  by (induction ds) (auto simp: launches_def filter_map comp_def)

lemma launches_startup_sequence:
  assumes "range_ok w"
  shows "launches d (startup_sequence w) =
           (if d = ''source'' \<and> source_step w \<noteq> [] then 1 else 0)
           + (if d = ''redisd'' then 1 else 0)
           + (if d = ''machined'' then 1 else 0)
           + (if d \<in> set (enabled (range_Daemon w)) then 1 else 0)"
proof -
  have src: "launches d (source_step w) = (if d = ''source'' \<and> source_step w \<noteq> [] then 1 else 0)"
    by (simp add: launches_def source_step_def)
  have st: "launches d [store_step w, config_step w] =
      (if d = ''redisd'' then 1 else 0) + (if d = ''machined'' then 1 else 0)"
    by (simp add: launches_def store_step_def config_step_def)
  have aux: "launches d (map (\<lambda>x. CallMain [x]) (enabled (range_Daemon w)))
      = (if d \<in> set (enabled (range_Daemon w)) then 1 else 0)"
    using enabled_range_ok(1) [OF assms] by (rule launches_enabled)
  have "launches d [CallHook] = 0" by (simp add: launches_def)
  then show ?thesis
    unfolding startup_sequence_def launches_append src st aux by simp
qed

text \<open>
  C1, as the claim states it, fails in its last part: in \<open>world_S\<close> the registry
  lists redisd at level 0, Main succeeds, and redisd has been launched twice, once as
  the store daemon (line 71) and once by the loop over the registry (line 89).
\<close>

theorem C1_exactly_once_counterexample:
  "os_Geteuid world_S [] = 0 \<and> range_ok world_S
   \<and> command_Daemon world_S ''redisd'' = Some 0
   \<and> Main world_S [] =
       (None,
        [CallGeteuid, CallHook, CallStat ''/etc/goesd'', CallGetenv ''REDISD'',
         CallMain [''redisd''], CallGetenv ''MACHINED'', CallMain [''machined''],
         CallMain [''redisd'']])
   \<and> launches ''redisd'' (snd (Main world_S [])) = 2
   \<and> count_list (snd (Main world_S [])) (CallMain [''redisd'']) = 2"
  by (simp add: Main_def start_def world_S_def world_A_def daemon_args_def Fields_def
      EtcGoesd_def range_ok_def launches_def)

text \<open>
  C1, amended. A run of Main with no argument by root performs the startup actions
  in the order of \<open>startup_sequence\<close>: the hook, the sourcing, the store daemon, the
  configuration daemon, the enabled entries of the registry. The actions it has
  performed are a prefix of that sequence, each in its place and once. When Main
  returns an error \<open>e\<close>, the last call of the run is an action, it is the only one
  that failed, and \<open>e\<close> is the error it returned: the actions before it had
  succeeded, the actions after it were not attempted. When Main returns no error the
  prefix is the whole sequence and no action has failed; then, the range yielding
  every entry of the registry once, a command \<open>d\<close> has been called once for each of:
  \<open>d\<close> is \<^verbatim>\<open>source\<close> and /etc/goesd was sourced, \<open>d\<close> is \<^verbatim>\<open>redisd\<close>, \<open>d\<close> is
  \<^verbatim>\<open>machined\<close>, \<open>d\<close> is an enabled entry of the registry. So every enabled daemon
  has been launched exactly once, unless the registry lists at a level that is not
  negative a name that Main also calls by itself, which is then called once more.
\<close>

theorem C1_startup_order_abort:
  assumes root: "os_Geteuid w [] = 0" and run: "Main w [] = (r, T)"
  shows "prefix (filter is_action T) (startup_sequence w)
       \<and> (r = None \<longrightarrow> filter is_action T = startup_sequence w \<and> failures w [] T = [])
       \<and> (\<forall>e. r = Some e \<longrightarrow>
            T \<noteq> [] \<and> is_action (last T) \<and> outcome w (butlast T) (last T) = Some e
            \<and> failures w [] T = [(length T - 1, e)])
       \<and> (r = None \<and> range_ok w \<longrightarrow>
            (\<forall>d. launches d T =
               (if d = ''source'' \<and> source_step w \<noteq> [] then 1 else 0)
               + (if d = ''redisd'' then 1 else 0)
               + (if d = ''machined'' then 1 else 0)
               + (if d \<in> set (enabled (range_Daemon w)) then 1 else 0)))"
proof -
  from root run have st: "start w [CallGeteuid] = (r, T)" by (simp add: Main_start)
  from start_run [OF st] obtain K where K:
    "filter is_action T = take K (startup_sequence w)"
    "r = None \<longrightarrow> K = length (startup_sequence w)"
    "r \<noteq> None \<longrightarrow> 0 < K \<and> is_action (last T)"
    "T \<noteq> []"
    "failures w [] T = (case r of None \<Rightarrow> [] | Some e \<Rightarrow> [(length T - 1, e)])"
    by blast
  from K(1) have "prefix (filter is_action T) (startup_sequence w)"
    by (simp add: take_is_prefix)
  moreover have "outcome w (butlast T) (last T) = Some e" if "r = Some e" for e
    using K(4,5) that by (intro failures_last) simp_all
  moreover have "launches d T =
               (if d = ''source'' \<and> source_step w \<noteq> [] then 1 else 0)
               + (if d = ''redisd'' then 1 else 0)
               + (if d = ''machined'' then 1 else 0)
               + (if d \<in> set (enabled (range_Daemon w)) then 1 else 0)"
    if "r = None" "range_ok w" for d
  proof -
    from K(1,2) that(1) have "filter is_action T = startup_sequence w" by simp
    then have "launches d T = launches d (startup_sequence w)"
      using launches_actions [of d T] by simp
    then show ?thesis by (simp only: launches_startup_sequence [OF that(2)])
  qed
  ultimately show ?thesis using K by auto
qed

theorem C1_startup_order_abort_witness:
  "os_Geteuid world_F [] = 0
   \<and> Main world_F [] =
       (Some (Error ''exit status 1''),
        [CallGeteuid, CallHook, CallStat ''/etc/goesd'', CallGetenv ''REDISD'',
         CallMain [''redisd''], CallGetenv ''MACHINED'', CallMain [''machined''],
         CallMain [''foo'']])
   \<and> startup_sequence world_F =
       [CallHook, CallMain [''redisd''], CallMain [''machined''], CallMain [''foo''],
        CallMain [''baz'']]
   \<and> prefix [CallHook, CallMain [''redisd''], CallMain [''machined''], CallMain [''foo'']]
        (startup_sequence world_F)
   \<and> failures world_F []
        [CallGeteuid, CallHook, CallStat ''/etc/goesd'', CallGetenv ''REDISD'',
         CallMain [''redisd''], CallGetenv ''MACHINED'', CallMain [''machined''],
         CallMain [''foo'']] = [(7, Error ''exit status 1'')]
   \<and> outcome world_F
        [CallGeteuid, CallHook, CallStat ''/etc/goesd'', CallGetenv ''REDISD'',
         CallMain [''redisd''], CallGetenv ''MACHINED'', CallMain [''machined'']]
        (CallMain [''foo'']) = Some (Error ''exit status 1'')
   \<and> os_Geteuid world_A [] = 0
   \<and> range_ok world_A
   \<and> Main world_A [] =
       (None,
        [CallGeteuid, CallHook, CallStat ''/etc/goesd'', CallGetenv ''REDISD'',
         CallMain [''redisd''], CallGetenv ''MACHINED'', CallMain [''machined''],
         CallMain [''foo''], CallMain [''baz'']])
   \<and> startup_sequence world_A =
       [CallHook, CallMain [''redisd''], CallMain [''machined''], CallMain [''foo''],
        CallMain [''baz'']]
   \<and> failures world_A []
        [CallGeteuid, CallHook, CallStat ''/etc/goesd'', CallGetenv ''REDISD'',
         CallMain [''redisd''], CallGetenv ''MACHINED'', CallMain [''machined''],
         CallMain [''foo''], CallMain [''baz'']] = []
   \<and> launches ''redisd'' (snd (Main world_A [])) = 1
   \<and> launches ''machined'' (snd (Main world_A [])) = 1
   \<and> launches ''foo'' (snd (Main world_A [])) = 1
   \<and> launches ''baz'' (snd (Main world_A [])) = 1
   \<and> launches ''bar'' (snd (Main world_A [])) = 0"
proof -
  have rootF: "os_Geteuid world_F [] = 0" and rootA: "os_Geteuid world_A [] = 0"
    and okA: "range_ok world_A"
    by (simp_all add: world_F_def world_A_def range_ok_def)
  have runF: "Main world_F [] =
       (Some (Error ''exit status 1''),
        [CallGeteuid, CallHook, CallStat ''/etc/goesd'', CallGetenv ''REDISD'',
         CallMain [''redisd''], CallGetenv ''MACHINED'', CallMain [''machined''],
         CallMain [''foo'']])"
    by (simp add: Main_def start_def world_F_def world_A_def daemon_args_def Fields_def
        EtcGoesd_def)
  have runA: "Main world_A [] =
       (None,
        [CallGeteuid, CallHook, CallStat ''/etc/goesd'', CallGetenv ''REDISD'',
         CallMain [''redisd''], CallGetenv ''MACHINED'', CallMain [''machined''],
         CallMain [''foo''], CallMain [''baz'']])"
    by (simp add: Main_def start_def world_A_def daemon_args_def Fields_def EtcGoesd_def)
  have seqF: "startup_sequence world_F =
       [CallHook, CallMain [''redisd''], CallMain [''machined''], CallMain [''foo''],
        CallMain [''baz'']]"
    by (simp add: startup_sequence_def source_step_def store_step_def config_step_def
        before_store_def enabled_def world_F_def world_A_def Fields_def)
  have failF: "failures world_F []
        [CallGeteuid, CallHook, CallStat ''/etc/goesd'', CallGetenv ''REDISD'',
         CallMain [''redisd''], CallGetenv ''MACHINED'', CallMain [''machined''],
         CallMain [''foo'']] = [(7, Error ''exit status 1'')]"
    and outF: "outcome world_F
        [CallGeteuid, CallHook, CallStat ''/etc/goesd'', CallGetenv ''REDISD'',
         CallMain [''redisd''], CallGetenv ''MACHINED'', CallMain [''machined'']]
        (CallMain [''foo'']) = Some (Error ''exit status 1'')"
    by (simp_all add: world_F_def world_A_def)
  have failA: "failures world_A []
        [CallGeteuid, CallHook, CallStat ''/etc/goesd'', CallGetenv ''REDISD'',
         CallMain [''redisd''], CallGetenv ''MACHINED'', CallMain [''machined''],
         CallMain [''foo''], CallMain [''baz'']] = []"
    by (simp add: world_A_def)
  from C1_startup_order_abort [OF rootF runF]
  have "prefix (filter is_action
        [CallGeteuid, CallHook, CallStat ''/etc/goesd'', CallGetenv ''REDISD'',
         CallMain [''redisd''], CallGetenv ''MACHINED'', CallMain [''machined''],
         CallMain [''foo'']]) (startup_sequence world_F)"
    by (elim conjE)
  then have preF: "prefix [CallHook, CallMain [''redisd''], CallMain [''machined''],
        CallMain [''foo'']] (startup_sequence world_F)"
    by simp
  from C1_startup_order_abort [OF rootA runA]
  have "filter is_action
        [CallGeteuid, CallHook, CallStat ''/etc/goesd'', CallGetenv ''REDISD'',
         CallMain [''redisd''], CallGetenv ''MACHINED'', CallMain [''machined''],
         CallMain [''foo''], CallMain [''baz'']] = startup_sequence world_A"
    by blast
  then have seqA: "startup_sequence world_A =
       [CallHook, CallMain [''redisd''], CallMain [''machined''], CallMain [''foo''],
        CallMain [''baz'']]"
    by simp
  have snd_runA: "snd (Main world_A []) =
        [CallGeteuid, CallHook, CallStat ''/etc/goesd'', CallGetenv ''REDISD'',
         CallMain [''redisd''], CallGetenv ''MACHINED'', CallMain [''machined''],
         CallMain [''foo''], CallMain [''baz'']]"
    using runA by simp
  from C1_startup_order_abort [OF rootA runA] okA
  have count: "launches d (snd (Main world_A [])) =
               (if d = ''source'' \<and> source_step world_A \<noteq> [] then 1 else 0)
               + (if d = ''redisd'' then 1 else 0)
               + (if d = ''machined'' then 1 else 0)
               + (if d \<in> set (enabled (range_Daemon world_A)) then 1 else 0)" for d
    unfolding snd_runA by blast
  have en: "enabled (range_Daemon world_A) = [''foo'', ''baz'']"
    by (simp add: enabled_def world_A_def)
  have l1: "launches ''redisd'' (snd (Main world_A [])) = 1"
    and l2: "launches ''machined'' (snd (Main world_A [])) = 1"
    and l3: "launches ''foo'' (snd (Main world_A [])) = 1"
    and l4: "launches ''baz'' (snd (Main world_A [])) = 1"
    and l5: "launches ''bar'' (snd (Main world_A [])) = 0"
    unfolding count en by simp_all
  show ?thesis
    by (intro conjI rootF runF seqF preF failF outF rootA okA runA seqA failA l1 l2 l3 l4 l5)
qed

text \<open>
  C2, as the claim states it, fails: \<open>world_A\<close> and \<open>world_A'\<close> have the same
  registry and the same environment and differ in the order the range over the
  registry yields only; one run launches foo before baz, the other baz before foo.
\<close>

theorem C2_order_counterexample:
  "range_ok world_A \<and> range_ok world_A'
   \<and> world_A' = world_A\<lparr>range_Daemon := range_Daemon world_A'\<rparr>
   \<and> Main world_A [] =
       (None,
        [CallGeteuid, CallHook, CallStat ''/etc/goesd'', CallGetenv ''REDISD'',
         CallMain [''redisd''], CallGetenv ''MACHINED'', CallMain [''machined''],
         CallMain [''foo''], CallMain [''baz'']])
   \<and> Main world_A' [] =
       (None,
        [CallGeteuid, CallHook, CallStat ''/etc/goesd'', CallGetenv ''REDISD'',
         CallMain [''redisd''], CallGetenv ''MACHINED'', CallMain [''machined''],
         CallMain [''baz''], CallMain [''foo'']])"
proof -
  have "map_of [(''baz'', 1), (''bar'', - 1), (''foo'', 0::int)]
        = map_of [(''foo'', 0), (''bar'', - 1), (''baz'', 1)]"
    by (rule ext) simp
  then have "range_ok world_A'"
    by (simp add: range_ok_def world_A'_def world_A_def)
  moreover have "range_ok world_A"
    by (simp add: range_ok_def world_A_def)
  ultimately show ?thesis
    by (simp add: Main_def start_def world_A'_def world_A_def daemon_args_def Fields_def
        EtcGoesd_def)
qed

text \<open>
  The loop depends on the enabled entries and their order only, and on the world
  through \<^verbatim>\<open>command.Main\<close> only.
\<close>

lemma daemon_loop_enabled:
  "daemon_loop w tr ds = daemon_loop w tr (map (\<lambda>d. (d, 0)) (enabled ds))"
proof (induction ds arbitrary: tr)
  case Nil
  show ?case by (simp add: enabled_Nil)
next
  case (Cons x ds)
  obtain d l where x: "x = (d, l)" by (cases x)
  show ?case
    using Cons.IH x by (simp add: enabled_Cons split: option.splits)
qed

lemma daemon_loop_world:
  "command_Main w' = command_Main w \<Longrightarrow> daemon_loop w' tr ds = daemon_loop w tr ds"
proof (induction ds arbitrary: tr)
  case Nil
  show ?case by simp
next
  case (Cons x ds)
  obtain d l where x: "x = (d, l)" by (cases x)
  show ?case
    using Cons x by (simp split: option.splits)
qed

lemma start_range:
  assumes same: "enabled ds' = enabled (range_Daemon w)"
  shows "start (w\<lparr>range_Daemon := ds'\<rparr>) tr = start w tr"
proof -
  have "daemon_loop (w\<lparr>range_Daemon := ds'\<rparr>) h ds' = daemon_loop w h ds'" for h
    by (rule daemon_loop_world) simp
  also have "daemon_loop w h ds' = daemon_loop w h (range_Daemon w)" for h
    using daemon_loop_enabled [of w h ds'] daemon_loop_enabled [of w h "range_Daemon w"] same
    by simp
  finally have dl: "daemon_loop (w\<lparr>range_Daemon := ds'\<rparr>) h ds' = daemon_loop w h (range_Daemon w)"
    for h .
  show ?thesis
    by (simp add: start_def Let_def dl split: option.splits)
qed

text \<open>
  C2, amended. In every run the launches follow the order: the store daemon, then
  the configuration daemon, then the enabled entries of the registry in the order in
  which the range of that run yields them (the actions performed are a prefix of
  that sequence, the whole of it when Main succeeds). Two runs in the same registry
  and environment whose ranges yield the enabled entries in the same order are the
  same run: the order of the launches is fixed as far as the order of the range is.
\<close>

theorem C2_order_follows_range:
  assumes root: "os_Geteuid w [] = 0" and run: "Main w [] = (r, T)"
    and same: "enabled ds' = enabled (range_Daemon w)"
  shows "prefix (filter is_action T)
           ([CallHook] @ source_step w @ [store_step w, config_step w]
            @ map (\<lambda>d. CallMain [d]) (enabled (range_Daemon w)))
       \<and> (r = None \<longrightarrow>
            filter is_action T =
              [CallHook] @ source_step w @ [store_step w, config_step w]
              @ map (\<lambda>d. CallMain [d]) (enabled (range_Daemon w)))
       \<and> Main (w\<lparr>range_Daemon := ds'\<rparr>) [] = (r, T)"
proof -
  from root run have st: "start w [CallGeteuid] = (r, T)" by (simp add: Main_start)
  from start_run [OF st] obtain K where K:
    "filter is_action T = take K (startup_sequence w)"
    "r = None \<longrightarrow> K = length (startup_sequence w)"
    by blast
  from K(1) have "prefix (filter is_action T) (startup_sequence w)"
    by (simp add: take_is_prefix)
  moreover from K have "r = None \<longrightarrow> filter is_action T = startup_sequence w"
    by simp
  moreover have "Main (w\<lparr>range_Daemon := ds'\<rparr>) [] = (r, T)"
    using root st start_range [OF same] by (simp add: Main_def)
  ultimately show ?thesis
    by (simp add: startup_sequence_def)
qed

theorem C2_order_follows_range_witness:
  "os_Geteuid world_A [] = 0
   \<and> Main world_A [] =
       (None,
        [CallGeteuid, CallHook, CallStat ''/etc/goesd'', CallGetenv ''REDISD'',
         CallMain [''redisd''], CallGetenv ''MACHINED'', CallMain [''machined''],
         CallMain [''foo''], CallMain [''baz'']])
   \<and> enabled [(''bar'', - 1), (''foo'', 0), (''baz'', 1)] = enabled (range_Daemon world_A)
   \<and> [CallHook, CallMain [''redisd''], CallMain [''machined''], CallMain [''foo''],
       CallMain [''baz'']] =
       [CallHook] @ source_step world_A @ [store_step world_A, config_step world_A]
       @ map (\<lambda>d. CallMain [d]) (enabled (range_Daemon world_A))
   \<and> Main (world_A\<lparr>range_Daemon := [(''bar'', - 1), (''foo'', 0), (''baz'', 1)]\<rparr>) [] =
       (None,
        [CallGeteuid, CallHook, CallStat ''/etc/goesd'', CallGetenv ''REDISD'',
         CallMain [''redisd''], CallGetenv ''MACHINED'', CallMain [''machined''],
         CallMain [''foo''], CallMain [''baz'']])
   \<and> os_Geteuid world_F [] = 0
   \<and> Main world_F [] =
       (Some (Error ''exit status 1''),
        [CallGeteuid, CallHook, CallStat ''/etc/goesd'', CallGetenv ''REDISD'',
         CallMain [''redisd''], CallGetenv ''MACHINED'', CallMain [''machined''],
         CallMain [''foo'']])
   \<and> prefix [CallHook, CallMain [''redisd''], CallMain [''machined''], CallMain [''foo'']]
        ([CallHook] @ source_step world_F @ [store_step world_F, config_step world_F]
         @ map (\<lambda>d. CallMain [d]) (enabled (range_Daemon world_F)))"
proof -
  have rootA: "os_Geteuid world_A [] = 0" and rootF: "os_Geteuid world_F [] = 0"
    by (simp_all add: world_F_def world_A_def)
  have runA: "Main world_A [] =
       (None,
        [CallGeteuid, CallHook, CallStat ''/etc/goesd'', CallGetenv ''REDISD'',
         CallMain [''redisd''], CallGetenv ''MACHINED'', CallMain [''machined''],
         CallMain [''foo''], CallMain [''baz'']])"
    by (simp add: Main_def start_def world_A_def daemon_args_def Fields_def EtcGoesd_def)
  have runF: "Main world_F [] =
       (Some (Error ''exit status 1''),
        [CallGeteuid, CallHook, CallStat ''/etc/goesd'', CallGetenv ''REDISD'',
         CallMain [''redisd''], CallGetenv ''MACHINED'', CallMain [''machined''],
         CallMain [''foo'']])"
    by (simp add: Main_def start_def world_F_def world_A_def daemon_args_def Fields_def
        EtcGoesd_def)
  have sameA: "enabled [(''bar'', - 1), (''foo'', 0), (''baz'', 1)] = enabled (range_Daemon world_A)"
    by (simp add: enabled_def world_A_def)
  have sameF: "enabled (range_Daemon world_F) = enabled (range_Daemon world_F)"
    by simp
  from C2_order_follows_range [OF rootA runA sameA]
  have twoA: "Main (world_A\<lparr>range_Daemon := [(''bar'', - 1), (''foo'', 0), (''baz'', 1)]\<rparr>) [] =
       (None,
        [CallGeteuid, CallHook, CallStat ''/etc/goesd'', CallGetenv ''REDISD'',
         CallMain [''redisd''], CallGetenv ''MACHINED'', CallMain [''machined''],
         CallMain [''foo''], CallMain [''baz'']])"
    by (elim conjE)
  from C2_order_follows_range [OF rootA runA sameA]
  have "filter is_action
        [CallGeteuid, CallHook, CallStat ''/etc/goesd'', CallGetenv ''REDISD'',
         CallMain [''redisd''], CallGetenv ''MACHINED'', CallMain [''machined''],
         CallMain [''foo''], CallMain [''baz'']] =
       [CallHook] @ source_step world_A @ [store_step world_A, config_step world_A]
       @ map (\<lambda>d. CallMain [d]) (enabled (range_Daemon world_A))"
    by blast
  then have seqA: "[CallHook, CallMain [''redisd''], CallMain [''machined''], CallMain [''foo''],
       CallMain [''baz'']] =
       [CallHook] @ source_step world_A @ [store_step world_A, config_step world_A]
       @ map (\<lambda>d. CallMain [d]) (enabled (range_Daemon world_A))"
    by simp
  from C2_order_follows_range [OF rootF runF sameF]
  have "prefix (filter is_action
        [CallGeteuid, CallHook, CallStat ''/etc/goesd'', CallGetenv ''REDISD'',
         CallMain [''redisd''], CallGetenv ''MACHINED'', CallMain [''machined''],
         CallMain [''foo'']])
        ([CallHook] @ source_step world_F @ [store_step world_F, config_step world_F]
         @ map (\<lambda>d. CallMain [d]) (enabled (range_Daemon world_F)))"
    by (elim conjE)
  then have preF: "prefix [CallHook, CallMain [''redisd''], CallMain [''machined''],
        CallMain [''foo'']]
        ([CallHook] @ source_step world_F @ [store_step world_F, config_step world_F]
         @ map (\<lambda>d. CallMain [d]) (enabled (range_Daemon world_F)))"
    by simp
  show ?thesis
    by (intro conjI rootA runA sameA seqA twoA rootF runF preF)
qed



text \<open>
  C7. Whenever the run reads \<^verbatim>\<open>REDISD\<close>, its next call launches \<^verbatim>\<open>redisd\<close>
  followed by exactly the fields of the value read, hence by nothing when the value
  is empty (an unset variable reads as the empty string); the same holds for
  \<^verbatim>\<open>MACHINED\<close> and \<^verbatim>\<open>machined\<close>, and a successful run has read both. The
  fields of tokens joined by single spaces are those tokens.
\<close>

theorem C7_override_args:
  assumes root: "os_Geteuid w [] = 0" and run: "Main w [] = (r, T)"
  shows "(\<forall>pre post. T = pre @ CallGetenv ''REDISD'' # post \<longrightarrow>
            (\<exists>rest. post = CallMain (''redisd'' # Fields (os_Getenv w pre ''REDISD'')) # rest))
       \<and> (\<forall>pre post. T = pre @ CallGetenv ''MACHINED'' # post \<longrightarrow>
            (\<exists>rest. post = CallMain (''machined'' # Fields (os_Getenv w pre ''MACHINED'')) # rest))
       \<and> (r = None \<longrightarrow> CallGetenv ''REDISD'' \<in> set T \<and> CallGetenv ''MACHINED'' \<in> set T)
       \<and> Fields [] = []
       \<and> (\<forall>ts. (\<forall>t\<in>set ts. token t) \<longrightarrow> Fields (join_space ts) = ts)"
proof -
  from root run have st: "start w [CallGeteuid] = (r, T)" by (simp add: Main_start)
  let ?R = "CallGetenv ''REDISD''" and ?M = "CallGetenv ''MACHINED''"
  let ?b = "before_store w"
  have store: "store_step w = CallMain (''redisd'' # Fields (os_Getenv w ?b ''REDISD''))"
    by (simp add: store_step_def before_store_def)
  have config: "config_step w =
      CallMain (''machined'' # Fields (os_Getenv w (?b @ [?R, store_step w]) ''MACHINED''))"
    by (simp add: config_step_def before_store_def)
  have nb: "?R \<notin> set ?b" "?M \<notin> set ?b" by (rule before_store_no_getenv)+
  from start_shape [OF st] consider
      (hook) "T = [CallGeteuid, CallHook]"
    | (src) "T = ?b"
    | (redisd) "T = ?b @ [?R, store_step w]"
    | (loop) n where "T = ?b @ [?R, store_step w, ?M, config_step w]
               @ map (\<lambda>d. CallMain [d]) (take n (enabled (range_Daemon w)))"
    by blast
  then have redisd: "\<exists>rest. post = CallMain (''redisd'' # Fields (os_Getenv w pre ''REDISD'')) # rest"
    if dec: "T = pre @ ?R # post" for pre post
  proof cases
    case hook
    with dec have "?R \<in> set [CallGeteuid, CallHook]" by (metis in_set_conv_decomp)
    then show ?thesis by simp
  next
    case src
    with dec have "?R \<in> set ?b" by (metis in_set_conv_decomp)
    with nb show ?thesis by simp
  next
    case redisd
    with dec have "?b @ ?R # [store_step w] = pre @ ?R # post" by simp
    moreover have "?R \<notin> set [store_step w]" by (simp add: store)
    ultimately have "?b = pre \<and> [store_step w] = post"
      using nb(1) by (metis append_Cons_eq_iff)
    then show ?thesis using store by auto
  next
    case loop
    let ?rest = "[store_step w, ?M, config_step w]
               @ map (\<lambda>d. CallMain [d]) (take n (enabled (range_Daemon w)))"
    from loop dec have "?b @ ?R # ?rest = pre @ ?R # post" by simp
    moreover have "?R \<notin> set ?rest" by (auto simp: store config)
    ultimately have "?b = pre \<and> ?rest = post"
      using nb(1) by (metis append_Cons_eq_iff)
    then show ?thesis using store by auto
  qed
  from start_shape [OF st] consider
      (hook) "T = [CallGeteuid, CallHook]"
    | (src) "T = ?b"
    | (redisd) "T = ?b @ [?R, store_step w]"
    | (loop) n where "T = ?b @ [?R, store_step w, ?M, config_step w]
               @ map (\<lambda>d. CallMain [d]) (take n (enabled (range_Daemon w)))"
    by blast
  then have machined: "\<exists>rest. post = CallMain (''machined'' # Fields (os_Getenv w pre ''MACHINED'')) # rest"
    if dec: "T = pre @ ?M # post" for pre post
  proof cases
    case hook
    with dec have "?M \<in> set [CallGeteuid, CallHook]" by (metis in_set_conv_decomp)
    then show ?thesis by simp
  next
    case src
    with dec have "?M \<in> set ?b" by (metis in_set_conv_decomp)
    with nb show ?thesis by simp
  next
    case redisd
    with dec have "?M \<in> set (?b @ [?R, store_step w])" by (metis in_set_conv_decomp)
    with nb show ?thesis by (simp add: store)
  next
    case loop
    let ?pre = "?b @ [?R, store_step w]"
    let ?rest = "config_step w # map (\<lambda>d. CallMain [d]) (take n (enabled (range_Daemon w)))"
    from loop dec have "?pre @ ?M # ?rest = pre @ ?M # post" by simp
    moreover have "?M \<notin> set ?rest" by (auto simp: config)
    moreover have "?M \<notin> set ?pre" using nb(2) by (simp add: store)
    ultimately have "?pre = pre \<and> ?rest = post"
      by (metis append_Cons_eq_iff)
    then show ?thesis using config by auto
  qed
  have reads: "CallGetenv ''REDISD'' \<in> set T \<and> CallGetenv ''MACHINED'' \<in> set T" if "r = None"
  proof -
    from start_run [OF st] that obtain K where
      K: "filter is_action T = startup_sequence w" by auto
    from start_shape [OF st] consider
      (hook) "T = [CallGeteuid, CallHook]"
    | (src) "T = ?b"
    | (redisd) "T = ?b @ [?R, store_step w]"
    | (loop) n where "T = ?b @ [?R, store_step w, ?M, config_step w]
               @ map (\<lambda>d. CallMain [d]) (take n (enabled (range_Daemon w)))"
      by blast
    then show ?thesis
    proof cases
      case hook
      with K show ?thesis by (simp add: startup_sequence_def)
    next
      case src
      with K have "length (filter is_action ?b) = length (startup_sequence w)" by simp
      then show ?thesis
        by (simp add: startup_sequence_def before_store_def source_step_def split: if_splits)
    next
      case redisd
      with K have "length (filter is_action (?b @ [?R, store_step w])) = length (startup_sequence w)" by simp
      then show ?thesis
        by (simp add: startup_sequence_def before_store_def source_step_def store split: if_splits)
    next
      case loop
      then show ?thesis by simp
    qed
  qed
  show ?thesis
    using redisd machined reads Fields_from_join by (simp add: Fields_Nil Fields_def)
qed

theorem C7_override_args_witness:
  "os_Geteuid world_B [] = 0
   \<and> Main world_B [] =
       (None,
        [CallGeteuid, CallHook, CallStat ''/etc/goesd''] @ CallGetenv ''REDISD'' #
         [CallMain [''redisd'', ''--bind'', ''127.0.0.1''], CallGetenv ''MACHINED'',
          CallMain [''machined''], CallMain [''foo''], CallMain [''baz'']])
   \<and> os_Getenv world_B [CallGeteuid, CallHook, CallStat ''/etc/goesd''] ''REDISD''
       = ''--bind 127.0.0.1''
   \<and> Fields ''--bind 127.0.0.1'' = [''--bind'', ''127.0.0.1'']
   \<and> token ''--bind'' \<and> token ''127.0.0.1''
   \<and> join_space [''--bind'', ''127.0.0.1''] = ''--bind 127.0.0.1''"
proof -
  have root: "os_Geteuid world_B [] = 0"
    by (simp add: world_B_def world_A_def)
  have fields: "Fields ''--bind 127.0.0.1'' = [''--bind'', ''127.0.0.1'']"
    by (simp add: Fields_def space_width_def space_runes_def)
  have run: "Main world_B [] =
       (None,
        [CallGeteuid, CallHook, CallStat ''/etc/goesd''] @ CallGetenv ''REDISD'' #
         [CallMain [''redisd'', ''--bind'', ''127.0.0.1''], CallGetenv ''MACHINED'',
          CallMain [''machined''], CallMain [''foo''], CallMain [''baz'']])"
    by (simp add: Main_def start_def world_B_def world_A_def daemon_args_def fields
        Fields_Nil EtcGoesd_def)
  have tok: "token ''--bind''" "token ''127.0.0.1''"
    by (simp_all add: token_def space_runes_def)
  show ?thesis
    using C7_override_args [OF root run] root run fields tok
    by (simp add: world_B_def world_A_def)
qed

subsection \<open>The process matcher\<close>

text \<open>Some paths of /proc and the pids read from them.\<close>

lemma exe_pid_examples:
  "exe_pid ''/proc/self/exe'' = 0"
  "exe_pid ''/proc/thread-self/exe'' = 0"
  "exe_pid ''/proc/10/exe'' = 10"
  "exe_pid ''/proc/11/exe'' = 11"
  "exe_pid ''/proc/100/exe'' = 100"
  by (simp_all add: exe_pid_def TrimSuffix_def TrimPrefix_def Sscan_int_def skipSpace.simps
      space_width_def space_runes_def digit_val_def parse_digits_def in_int64_def)

lemma proc_stat_10: "proc_stat 10 = ''/proc/10/stat''"
  and proc_stat_11: "proc_stat 11 = ''/proc/11/stat''"
  and proc_stat_0: "proc_stat 0 = ''/proc/0/stat''"
  by (simp_all add: proc_stat_def itoa_def digits10.simps)

text \<open>The loop on a list extended by one entry, then its result in closed form.\<close>

lemma match_loop_append:
  "match_loop w p q tr (xs @ ys) acc =
     (case match_loop w p q tr xs acc of (acc', tr') \<Rightarrow> match_loop w p q tr' ys acc')"
  by (induction xs arbitrary: tr acc) (simp_all split: sum.splits)

lemma match_loop_trace:
  "snd (match_loop w p q tr exes acc) = tr @ map CallReadlink exes"
  by (induction exes arbitrary: tr acc) (simp_all split: sum.splits)

lemma match_loop_snoc:
  "fst (match_loop w p q tr (xs @ [x]) acc) =
     fst (match_loop w p q tr xs acc) @
       (if os_Readlink w (tr @ map CallReadlink xs) x = Inr p \<and> exe_pid x \<noteq> q
        then [exe_pid x] else [])"
proof -
  obtain acc' tr' where r: "match_loop w p q tr xs acc = (acc', tr')"
    by (cases "match_loop w p q tr xs acc")
  then have "tr' = tr @ map CallReadlink xs"
    using match_loop_trace [of w p q tr xs acc] by simp
  with r show ?thesis
    by (auto simp: match_loop_append split: sum.splits)
qed

lemma match_loop_pids:
  "fst (match_loop w p q tr exes []) =
     map (\<lambda>i. exe_pid (exes ! i))
       (filter (\<lambda>i. os_Readlink w (tr @ map CallReadlink (take i exes)) (exes ! i) = Inr p
                    \<and> exe_pid (exes ! i) \<noteq> q)
          [0..<length exes])"
proof (induction exes rule: rev_induct)
  case Nil
  show ?case by simp
next
  case (snoc x xs)
  let ?P = "\<lambda>i. os_Readlink w (tr @ map CallReadlink (take i xs)) (xs ! i) = Inr p
                    \<and> exe_pid (xs ! i) \<noteq> q"
  let ?P' = "\<lambda>i. os_Readlink w (tr @ map CallReadlink (take i (xs @ [x]))) ((xs @ [x]) ! i) = Inr p
                    \<and> exe_pid ((xs @ [x]) ! i) \<noteq> q"
  have f: "filter ?P' [0..<length xs] = filter ?P [0..<length xs]"
    by (rule filter_cong) (simp_all add: nth_append)
  have m: "map (\<lambda>i. exe_pid ((xs @ [x]) ! i)) (filter ?P [0..<length xs])
         = map (\<lambda>i. exe_pid (xs ! i)) (filter ?P [0..<length xs])"
    by (rule map_cong) (auto simp: nth_append)
  have "map (\<lambda>i. exe_pid ((xs @ [x]) ! i)) (filter ?P' [0..<length (xs @ [x])])
      = map (\<lambda>i. exe_pid ((xs @ [x]) ! i)) (filter ?P' [0..<length xs])
        @ (if ?P' (length xs) then [exe_pid x] else [])"
    by simp
  also have "\<dots> = map (\<lambda>i. exe_pid (xs ! i)) (filter ?P [0..<length xs])
        @ (if os_Readlink w (tr @ map CallReadlink xs) x = Inr p \<and> exe_pid x \<noteq> q
           then [exe_pid x] else [])"
    by (simp only: f m) simp
  also have "\<dots> = fst (match_loop w p q tr (xs @ [x]) [])"
    by (simp only: match_loop_snoc snoc.IH)
  finally show ?case by (rule sym)
qed

text \<open>
  C5. The first loop of stop reads the link of every glob result, once and in order,
  and returns no error. Its result is made of the pids of exactly those results whose
  link, at the moment it is read, resolves to the supervisor's own path and whose pid
  is not the supervisor's own: a result whose link cannot be read, or resolves to
  another path, adds nothing. Hence every pid of the result comes from such an entry
  and the supervisor's pid is never among them.
\<close>

theorem C5_process_matcher:
  assumes run: "match_loop w thisprog thispid tr exes [] = (pids, T)"
  shows "T = tr @ map CallReadlink exes
       \<and> pids = map (\<lambda>i. exe_pid (exes ! i))
           (filter (\<lambda>i. os_Readlink w (tr @ map CallReadlink (take i exes)) (exes ! i) = Inr thisprog
                        \<and> exe_pid (exes ! i) \<noteq> thispid)
              [0..<length exes])
       \<and> thispid \<notin> set pids
       \<and> (\<forall>pid\<in>set pids. \<exists>i<length exes.
             os_Readlink w (tr @ map CallReadlink (take i exes)) (exes ! i) = Inr thisprog
             \<and> exe_pid (exes ! i) = pid \<and> pid \<noteq> thispid)"
proof -
  from run have T: "T = tr @ map CallReadlink exes"
    using match_loop_trace [of w thisprog thispid tr exes "[]"] by simp
  from run have pids: "pids = map (\<lambda>i. exe_pid (exes ! i))
           (filter (\<lambda>i. os_Readlink w (tr @ map CallReadlink (take i exes)) (exes ! i) = Inr thisprog
                        \<and> exe_pid (exes ! i) \<noteq> thispid)
              [0..<length exes])"
    using match_loop_pids [of w thisprog thispid tr exes] by simp
  have "\<exists>i<length exes.
             os_Readlink w (tr @ map CallReadlink (take i exes)) (exes ! i) = Inr thisprog
             \<and> exe_pid (exes ! i) = pid \<and> pid \<noteq> thispid" if "pid \<in> set pids" for pid
    using that unfolding pids by auto
  then show ?thesis using T pids by blast
qed

theorem C5_process_matcher_witness:
  "match_loop world_C ''/usr/sbin/goesd'' 100 []
     [''/proc/1/exe'', ''/proc/10/exe'', ''/proc/100/exe'', ''/proc/11/exe'', ''/proc/2/exe'',
      ''/proc/self/exe'', ''/proc/thread-self/exe''] []
   = ([10, 11, 0, 0],
      map CallReadlink
        [''/proc/1/exe'', ''/proc/10/exe'', ''/proc/100/exe'', ''/proc/11/exe'', ''/proc/2/exe'',
         ''/proc/self/exe'', ''/proc/thread-self/exe''])
   \<and> 100 \<notin> set [10, 11, 0, 0 :: int]
   \<and> os_Readlink world_C [CallReadlink ''/proc/1/exe''] ''/proc/10/exe'' = Inr ''/usr/sbin/goesd''
   \<and> os_Readlink world_C [] ''/proc/1/exe'' = Inr ''/sbin/init''
   \<and> os_Readlink world_C (map CallReadlink [''/proc/1/exe'', ''/proc/10/exe'', ''/proc/100/exe'',
        ''/proc/11/exe'']) ''/proc/2/exe'' = Inl (Error ''no such file or directory'')"
proof -
  have run: "match_loop world_C ''/usr/sbin/goesd'' 100 []
     [''/proc/1/exe'', ''/proc/10/exe'', ''/proc/100/exe'', ''/proc/11/exe'', ''/proc/2/exe'',
      ''/proc/self/exe'', ''/proc/thread-self/exe''] []
   = ([10, 11, 0, 0],
      map CallReadlink
        [''/proc/1/exe'', ''/proc/10/exe'', ''/proc/100/exe'', ''/proc/11/exe'', ''/proc/2/exe'',
         ''/proc/self/exe'', ''/proc/thread-self/exe''])"
    by (simp add: world_C_def world_A_def exe_pid_examples)
  from C5_process_matcher [OF run] have "100 \<notin> set [10, 11, 0, 0 :: int]"
    by (elim conjE)
  with run show ?thesis
    by (simp add: world_C_def world_A_def)
qed

subsection \<open>The termination escalator\<close>

text \<open>
  A signalling loop on a list extended by one pid; the calls a loop adds to the run,
  and how many times it signals each pid of a list without repetition.
\<close>

lemma kill_loop_append:
  "kill_loop w sig tr (xs @ ys) = kill_loop w sig (kill_loop w sig tr xs) ys"
  by (induction xs arbitrary: tr) simp_all

lemma kill_loop_snoc:
  "kill_loop w sig tr (xs @ [x]) =
     kill_loop w sig tr xs @ CallStat (proc_stat x) #
       (if os_Stat w (kill_loop w sig tr xs) (proc_stat x) = None then [CallKill x sig] else [])"
  by (simp add: kill_loop_append)

lemma kill_loop_extends:
  "\<exists>A. kill_loop w sig tr pids = tr @ A
       \<and> (\<forall>e\<in>set A. \<exists>p\<in>set pids. e = CallStat (proc_stat p) \<or> e = CallKill p sig)
       \<and> (distinct pids \<longrightarrow>
            (\<forall>i<length pids. count_list A (CallKill (pids ! i) sig) =
               (if os_Stat w (kill_loop w sig tr (take i pids)) (proc_stat (pids ! i)) = None
                then 1 else 0)))"
proof (induction pids rule: rev_induct)
  case Nil
  show ?case by simp
next
  case (snoc x xs)
  then obtain A where A: "kill_loop w sig tr xs = tr @ A"
    "\<forall>e\<in>set A. \<exists>p\<in>set xs. e = CallStat (proc_stat p) \<or> e = CallKill p sig"
    "distinct xs \<longrightarrow>
       (\<forall>i<length xs. count_list A (CallKill (xs ! i) sig) =
          (if os_Stat w (kill_loop w sig tr (take i xs)) (proc_stat (xs ! i)) = None
           then 1 else 0))"
    by blast
  define step where "step = CallStat (proc_stat x) #
       (if os_Stat w (kill_loop w sig tr xs) (proc_stat x) = None then [CallKill x sig] else [])"
  have run: "kill_loop w sig tr (xs @ [x]) = tr @ (A @ step)"
    using A(1) by (simp add: kill_loop_snoc step_def)
  have ev: "\<forall>e\<in>set (A @ step). \<exists>p\<in>set (xs @ [x]). e = CallStat (proc_stat p) \<or> e = CallKill p sig"
    using A(2) by (auto simp: step_def)
  have cnt: "count_list (A @ step) (CallKill ((xs @ [x]) ! i) sig) =
               (if os_Stat w (kill_loop w sig tr (take i (xs @ [x]))) (proc_stat ((xs @ [x]) ! i)) = None
                then 1 else 0)"
    if d: "distinct (xs @ [x])" and i: "i < length (xs @ [x])" for i
  proof (cases "i < length xs")
    case True
    then have "xs ! i \<noteq> x" using d by auto
    then have "count_list step (CallKill (xs ! i) sig) = 0"
      by (simp add: step_def)
    then show ?thesis using True A(3) d by (simp add: nth_append)
  next
    case False
    with i have i: "i = length xs" by simp
    have "CallKill x sig \<notin> set A"
      using A(2) d by auto
    then have "count_list A (CallKill x sig) = 0" by simp
    then show ?thesis using i by (simp add: step_def)
  qed
  show ?case
    using run ev cnt by blast
qed

lemma kill_loop_needs_stat:
  "CallKill p s \<in> set (kill_loop w sig tr pids) \<Longrightarrow>
   CallKill p s \<in> set tr \<or> (\<exists>h. os_Stat w h (proc_stat p) = None)"
proof (induction pids arbitrary: tr)
  case Nil
  then show ?case by simp
next
  case (Cons a pids)
  show ?case
  proof (cases "os_Stat w tr (proc_stat a) = None")
    case True
    with Cons.prems
    have "CallKill p s \<in> set (kill_loop w sig (tr @ [CallStat (proc_stat a), CallKill a sig]) pids)"
      by simp
    from Cons.IH [OF this] True show ?thesis by auto
  next
    case False
    with Cons.prems
    have "CallKill p s \<in> set (kill_loop w sig (tr @ [CallStat (proc_stat a)]) pids)"
      by simp
    from Cons.IH [OF this] show ?thesis by auto
  qed
qed

text \<open>
  C4. For pids without repetition, the run of the escalator is a first part \<open>A\<close>,
  the sleep of two seconds, and a second part \<open>B\<close>, with nothing after. \<open>A\<close> holds
  only liveness checks and SIGTERM signals to the given pids, \<open>B\<close> only liveness
  checks and SIGKILL signals to the given pids: no SIGKILL is sent before the sleep
  has returned and there is no sleep after one. A pid is sent SIGTERM exactly once
  when its check in the first loop succeeds and not at all otherwise, and SIGKILL
  exactly once when its check after the sleep succeeds and not at all otherwise. The
  escalator returns no error: a check that fails only skips the pid.
\<close>

theorem C4_escalation:
  assumes d: "distinct pids"
  shows "\<exists>A B. terminate w tr pids = tr @ A @ [CallSleep (2 * Second)] @ B
       \<and> (\<forall>e\<in>set A. \<exists>p\<in>set pids. e = CallStat (proc_stat p) \<or> e = CallKill p SIGTERM)
       \<and> (\<forall>e\<in>set B. \<exists>p\<in>set pids. e = CallStat (proc_stat p) \<or> e = CallKill p SIGKILL)
       \<and> (\<forall>i<length pids. count_list A (CallKill (pids ! i) SIGTERM) =
             (if os_Stat w (kill_loop w SIGTERM tr (take i pids)) (proc_stat (pids ! i)) = None
              then 1 else 0))
       \<and> (\<forall>i<length pids. count_list B (CallKill (pids ! i) SIGKILL) =
             (if os_Stat w (kill_loop w SIGKILL (tr @ A @ [CallSleep (2 * Second)]) (take i pids))
                   (proc_stat (pids ! i)) = None
              then 1 else 0))"
proof -
  from kill_loop_extends [of w SIGTERM tr pids] d obtain A where A:
    "kill_loop w SIGTERM tr pids = tr @ A"
    "\<forall>e\<in>set A. \<exists>p\<in>set pids. e = CallStat (proc_stat p) \<or> e = CallKill p SIGTERM"
    "\<forall>i<length pids. count_list A (CallKill (pids ! i) SIGTERM) =
       (if os_Stat w (kill_loop w SIGTERM tr (take i pids)) (proc_stat (pids ! i)) = None
        then 1 else 0)"
    by blast
  let ?tr2 = "tr @ A @ [CallSleep (2 * Second)]"
  from kill_loop_extends [of w SIGKILL ?tr2 pids] d obtain B where B:
    "kill_loop w SIGKILL ?tr2 pids = ?tr2 @ B"
    "\<forall>e\<in>set B. \<exists>p\<in>set pids. e = CallStat (proc_stat p) \<or> e = CallKill p SIGKILL"
    "\<forall>i<length pids. count_list B (CallKill (pids ! i) SIGKILL) =
       (if os_Stat w (kill_loop w SIGKILL ?tr2 (take i pids)) (proc_stat (pids ! i)) = None
        then 1 else 0)"
    by blast
  have "terminate w tr pids = tr @ A @ [CallSleep (2 * Second)] @ B"
    using A(1) B(1) by (simp add: terminate_def)
  with A(2,3) B(2,3) show ?thesis by blast
qed

theorem C4_escalation_witness:
  "distinct [10, 11 :: int]
   \<and> terminate world_C [] [10, 11] =
       [CallStat ''/proc/10/stat'', CallKill 10 SIGTERM,
        CallStat ''/proc/11/stat'', CallKill 11 SIGTERM,
        CallSleep 2000000000,
        CallStat ''/proc/10/stat'', CallStat ''/proc/11/stat'', CallKill 11 SIGKILL]
   \<and> (\<exists>A B. terminate world_C [] [10, 11] = A @ [CallSleep (2 * Second)] @ B
          \<and> count_list A (CallKill 10 SIGTERM) = 1
          \<and> count_list A (CallKill 11 SIGTERM) = 1
          \<and> count_list B (CallKill 10 SIGKILL) = 0
          \<and> count_list B (CallKill 11 SIGKILL) = 1)"
proof -
  have d: "distinct [10, 11 :: int]" by simp
  have run: "terminate world_C [] [10, 11] =
       [CallStat ''/proc/10/stat'', CallKill 10 SIGTERM,
        CallStat ''/proc/11/stat'', CallKill 11 SIGTERM,
        CallSleep 2000000000,
        CallStat ''/proc/10/stat'', CallStat ''/proc/11/stat'', CallKill 11 SIGKILL]"
    by (simp add: terminate_def proc_stat_10 proc_stat_11 world_C_def world_A_def Second_def)
  from C4_escalation [OF d, of world_C "[]"] obtain A B where
    AB: "terminate world_C [] [10, 11] = [] @ A @ [CallSleep (2 * Second)] @ B"
    and cA: "\<forall>i<length [10, 11 :: int]. count_list A (CallKill ([10, 11] ! i) SIGTERM) =
             (if os_Stat world_C (kill_loop world_C SIGTERM [] (take i [10, 11]))
                   (proc_stat ([10, 11] ! i)) = None
              then 1 else 0)"
    and cB: "\<forall>i<length [10, 11 :: int]. count_list B (CallKill ([10, 11] ! i) SIGKILL) =
             (if os_Stat world_C
                   (kill_loop world_C SIGKILL ([] @ A @ [CallSleep (2 * Second)]) (take i [10, 11]))
                   (proc_stat ([10, 11] ! i)) = None
              then 1 else 0)"
    by blast
  have "count_list A (CallKill 10 SIGTERM) = 1"
    using cA [rule_format, of 0]
    by (simp add: proc_stat_10 proc_stat_11 world_C_def world_A_def Second_def)
  moreover have "count_list A (CallKill 11 SIGTERM) = 1"
    using cA [rule_format, of 1]
    by (simp add: proc_stat_10 proc_stat_11 world_C_def world_A_def Second_def)
  moreover have "count_list B (CallKill 10 SIGKILL) = 0"
    using cB [rule_format, of 0]
    by (simp add: proc_stat_10 proc_stat_11 world_C_def world_A_def Second_def)
  moreover have "count_list B (CallKill 11 SIGKILL) = 1"
    using cB [rule_format, of 1]
    by (simp add: proc_stat_10 proc_stat_11 world_C_def world_A_def Second_def)
  ultimately have "\<exists>A B. terminate world_C [] [10, 11] = A @ [CallSleep (2 * Second)] @ B
          \<and> count_list A (CallKill 10 SIGTERM) = 1
          \<and> count_list A (CallKill 11 SIGTERM) = 1
          \<and> count_list B (CallKill 10 SIGKILL) = 0
          \<and> count_list B (CallKill 11 SIGKILL) = 1"
    using AB by (intro exI [of _ A] exI [of _ B]) simp
  with d run show ?thesis by simp
qed

subsection \<open>The stop pipeline\<close>

lemma stop_discovered:
  assumes link: "os_Readlink w tr ''/proc/self/exe'' = Inr thisprog"
    and glob: "filepath_Glob w (tr @ [CallReadlink ''/proc/self/exe'', CallGetpid]) ''/proc/*/exe''
               = Inr exes"
  shows "stop w tr =
     (None,
      reclaim w (terminate w
        (tr @ [CallReadlink ''/proc/self/exe'', CallGetpid, CallGlob ''/proc/*/exe'']
            @ map CallReadlink exes)
        (fst (match_loop w thisprog (os_Getpid w (tr @ [CallReadlink ''/proc/self/exe'']))
               (tr @ [CallReadlink ''/proc/self/exe'', CallGetpid, CallGlob ''/proc/*/exe''])
               exes []))))"
proof -
  let ?tr3 = "tr @ [CallReadlink ''/proc/self/exe'', CallGetpid, CallGlob ''/proc/*/exe'']"
  let ?thispid = "os_Getpid w (tr @ [CallReadlink ''/proc/self/exe''])"
  obtain pids T where m: "match_loop w thisprog ?thispid ?tr3 exes [] = (pids, T)"
    by (cases "match_loop w thisprog ?thispid ?tr3 exes []")
  then have "T = ?tr3 @ map CallReadlink exes"
    using match_loop_trace [of w thisprog ?thispid ?tr3 exes "[]"] by simp
  with m link glob show ?thesis
    by (simp add: stop_def)
qed

text \<open>
  C8. When the link of the supervisor's own executable cannot be read, or the glob
  over /proc fails, stop returns that error, and the only calls it has made are the
  reading of the link, of the pid and the glob: no signal, no removal.
\<close>

theorem C8_discovery_failure:
  assumes "os_Readlink w tr ''/proc/self/exe'' = Inl err
         \<or> (\<exists>thisprog. os_Readlink w tr ''/proc/self/exe'' = Inr thisprog
              \<and> filepath_Glob w (tr @ [CallReadlink ''/proc/self/exe'', CallGetpid]) ''/proc/*/exe''
                  = Inl err)"
  shows "fst (stop w tr) = Some err
       \<and> (\<exists>A. snd (stop w tr) = tr @ A
              \<and> set A \<subseteq> {CallReadlink ''/proc/self/exe'', CallGetpid, CallGlob ''/proc/*/exe''})"
  using assms by (auto simp: stop_def)

theorem C8_discovery_failure_witness:
  "os_Readlink world_A [CallGeteuid] ''/proc/self/exe'' = Inl (Error ''no such file or directory'')
   \<and> stop world_A [CallGeteuid] =
       (Some (Error ''no such file or directory''), [CallGeteuid, CallReadlink ''/proc/self/exe''])
   \<and> os_Readlink world_G [CallGeteuid] ''/proc/self/exe'' = Inr ''/usr/sbin/goesd''
   \<and> filepath_Glob world_G [CallGeteuid, CallReadlink ''/proc/self/exe'', CallGetpid] ''/proc/*/exe''
       = Inl (Error ''syntax error in pattern'')
   \<and> stop world_G [CallGeteuid] =
       (Some (Error ''syntax error in pattern''),
        [CallGeteuid, CallReadlink ''/proc/self/exe'', CallGetpid, CallGlob ''/proc/*/exe''])
   \<and> fst (Main world_G [''stop'']) = Some (Error ''syntax error in pattern'')"
proof -
  have a: "os_Readlink world_A [CallGeteuid] ''/proc/self/exe''
           = Inl (Error ''no such file or directory'')"
    by (simp add: world_A_def)
  have g: "os_Readlink world_G [CallGeteuid] ''/proc/self/exe'' = Inr ''/usr/sbin/goesd''"
    "filepath_Glob world_G ([CallGeteuid] @ [CallReadlink ''/proc/self/exe'', CallGetpid])
       ''/proc/*/exe'' = Inl (Error ''syntax error in pattern'')"
    by (simp_all add: world_G_def world_C_def world_A_def)
  have "fst (stop world_A [CallGeteuid]) = Some (Error ''no such file or directory'')"
    using C8_discovery_failure [of world_A "[CallGeteuid]" "Error ''no such file or directory''"] a
    by blast
  moreover have "fst (stop world_G [CallGeteuid]) = Some (Error ''syntax error in pattern'')"
    using C8_discovery_failure [of world_G "[CallGeteuid]" "Error ''syntax error in pattern''"] g
    by blast
  ultimately show ?thesis
    using a g by (simp add: stop_def Main_def world_G_def world_C_def world_A_def)
qed

text \<open>What stop does is the same whatever the two removals answer.\<close>

lemma match_loop_world:
  "os_Readlink w' = os_Readlink w \<Longrightarrow>
   match_loop w' p q tr exes acc = match_loop w p q tr exes acc"
  by (induction exes arbitrary: tr acc) (simp_all split: sum.splits)

lemma kill_loop_world:
  "os_Stat w' = os_Stat w \<Longrightarrow> kill_loop w' sig tr pids = kill_loop w sig tr pids"
  by (induction pids arbitrary: tr) simp_all

lemma reclaim_eq: "reclaim w tr = tr @ [CallSockRemoveAll, CallPidRemoveAll]"
  by (simp add: reclaim_def)

lemma stop_ignores_removal:
  "stop (w\<lparr>sockfile_RemoveAll := f, pidfile_RemoveAll := g\<rparr>) tr = stop w tr"
proof -
  let ?w = "w\<lparr>sockfile_RemoveAll := f, pidfile_RemoveAll := g\<rparr>"
  have m: "match_loop ?w p q h exes acc = match_loop w p q h exes acc" for p q h exes acc
    by (rule match_loop_world) simp
  have k: "kill_loop ?w sig h pids = kill_loop w sig h pids" for sig h pids
    by (rule kill_loop_world) simp
  show ?thesis
    by (simp add: stop_def terminate_def reclaim_eq m k Let_def split: sum.splits prod.splits)
qed

text \<open>
  C9, as the claim states it, fails: in \<open>world_R\<close> the removal of the socket files
  meets a file system error, and stop returns no error.
\<close>

theorem C9_reclaim_error_counterexample:
  "sockfile_RemoveAll world_R (butlast (butlast (snd (Main world_R [''stop'']))))
     = Some (Error ''read-only file system'')
   \<and> Main world_R [''stop''] =
       (None,
        [CallGeteuid, CallReadlink ''/proc/self/exe'', CallGetpid, CallGlob ''/proc/*/exe'',
         CallReadlink ''/proc/1/exe'', CallReadlink ''/proc/10/exe'',
         CallReadlink ''/proc/100/exe'', CallReadlink ''/proc/11/exe'',
         CallReadlink ''/proc/2/exe'', CallReadlink ''/proc/self/exe'',
         CallReadlink ''/proc/thread-self/exe'',
         CallStat ''/proc/10/stat'', CallKill 10 SIGTERM,
         CallStat ''/proc/11/stat'', CallKill 11 SIGTERM,
         CallStat ''/proc/0/stat'', CallStat ''/proc/0/stat'',
         CallSleep 2000000000,
         CallStat ''/proc/10/stat'', CallStat ''/proc/11/stat'', CallKill 11 SIGKILL,
         CallStat ''/proc/0/stat'', CallStat ''/proc/0/stat'',
         CallSockRemoveAll, CallPidRemoveAll])"
  by (simp add: Main_def stop_def terminate_def reclaim_def world_R_def world_C_def world_A_def
      exe_pid_examples proc_stat_10 proc_stat_11 proc_stat_0 Second_def)

text \<open>
  C9, amended. Once the link has been read and the glob has succeeded, stop returns
  no error, its last two calls are the removal of the socket files and the removal
  of the pid files, and its result is the same whatever the two removals answer: an
  error of the file system during the removal is not reported to the caller.
\<close>

theorem C9_stop_reports_success:
  assumes link: "os_Readlink w tr ''/proc/self/exe'' = Inr thisprog"
    and glob: "filepath_Glob w (tr @ [CallReadlink ''/proc/self/exe'', CallGetpid]) ''/proc/*/exe''
               = Inr exes"
  shows "fst (stop w tr) = None
       \<and> (\<exists>T. snd (stop w tr) = T @ [CallSockRemoveAll, CallPidRemoveAll])
       \<and> stop (w\<lparr>sockfile_RemoveAll := f, pidfile_RemoveAll := g\<rparr>) tr = stop w tr"
  using stop_discovered [OF link glob] by (simp add: reclaim_eq stop_ignores_removal)

theorem C9_stop_reports_success_witness:
  "os_Readlink world_R [CallGeteuid] ''/proc/self/exe'' = Inr ''/usr/sbin/goesd''
   \<and> filepath_Glob world_R [CallGeteuid, CallReadlink ''/proc/self/exe'', CallGetpid] ''/proc/*/exe''
       = Inr [''/proc/1/exe'', ''/proc/10/exe'', ''/proc/100/exe'', ''/proc/11/exe'',
              ''/proc/2/exe'', ''/proc/self/exe'', ''/proc/thread-self/exe'']
   \<and> fst (stop world_R [CallGeteuid]) = None
   \<and> stop world_R [CallGeteuid] = stop world_C [CallGeteuid]"
proof -
  have link: "os_Readlink world_R [CallGeteuid] ''/proc/self/exe'' = Inr ''/usr/sbin/goesd''"
    and glob: "filepath_Glob world_R ([CallGeteuid] @ [CallReadlink ''/proc/self/exe'', CallGetpid])
       ''/proc/*/exe''
       = Inr [''/proc/1/exe'', ''/proc/10/exe'', ''/proc/100/exe'', ''/proc/11/exe'',
              ''/proc/2/exe'', ''/proc/self/exe'', ''/proc/thread-self/exe'']"
    by (simp_all add: world_R_def world_C_def world_A_def)
  have C: "world_R\<lparr>sockfile_RemoveAll := sockfile_RemoveAll world_C,
                  pidfile_RemoveAll := pidfile_RemoveAll world_C\<rparr> = world_C"
    by (simp add: world_R_def world_C_def world_A_def)
  from C9_stop_reports_success [OF link glob,
      where f = "sockfile_RemoveAll world_C" and g = "pidfile_RemoveAll world_C"]
  show ?thesis using link glob by (simp add: C)
qed

text \<open>A signalling loop checks every pid it is given.\<close>

lemma kill_loop_checks:
  "pid \<in> set pids \<Longrightarrow>
   \<exists>A. kill_loop w sig tr pids = tr @ A \<and> CallStat (proc_stat pid) \<in> set A"
proof (induction pids arbitrary: tr)
  case Nil
  then show ?case by simp
next
  case (Cons a pids)
  define step where "step = CallStat (proc_stat a) #
       (if os_Stat w tr (proc_stat a) = None then [CallKill a sig] else [])"
  have run: "kill_loop w sig tr (a # pids) = kill_loop w sig (tr @ step) pids"
    by (simp add: step_def)
  show ?case
  proof (cases "pid = a")
    case True
    from kill_loop_extends [of w sig "tr @ step" pids] obtain A where
      "kill_loop w sig (tr @ step) pids = (tr @ step) @ A" by blast
    with run True show ?thesis
      by (intro exI [of _ "step @ A"]) (simp add: step_def)
  next
    case False
    with Cons.prems have "pid \<in> set pids" by simp
    from Cons.IH [OF this, of "tr @ step"] obtain A where
      "kill_loop w sig (tr @ step) pids = (tr @ step) @ A" "CallStat (proc_stat pid) \<in> set A"
      by blast
    with run show ?thesis
      by (intro exI [of _ "step @ A"]) simp
  qed
qed

text \<open>
  C10. The pid read from \<^verbatim>\<open>/proc/self/exe\<close> is 0, since \<^verbatim>\<open>self\<close> is not a number.
  When the link of the supervisor's executable reads the same throughout, the glob
  lists \<^verbatim>\<open>/proc/self/exe\<close> and the supervisor's pid is not 0, the pid 0 is in the
  list of targets that \<^verbatim>\<open>stop\<close> hands to its two signalling loops: the run of
  \<^verbatim>\<open>Main\<close> with \<^verbatim>\<open>stop\<close> examines \<^verbatim>\<open>/proc/0/stat\<close> before the sleep and again
  after it. When moreover \<^verbatim>\<open>/proc/0/stat\<close> can never be examined, no signal is sent
  to pid 0.
\<close>

theorem C10_self_entry:
  assumes root: "os_Geteuid w [] = 0"
    and link: "\<forall>h. os_Readlink w h ''/proc/self/exe'' = Inr thisprog"
    and glob: "filepath_Glob w [CallGeteuid, CallReadlink ''/proc/self/exe'', CallGetpid]
                 ''/proc/*/exe'' = Inr exes"
    and self: "''/proc/self/exe'' \<in> set exes"
    and pid: "os_Getpid w [CallGeteuid, CallReadlink ''/proc/self/exe''] \<noteq> 0"
    and dead: "\<forall>h. os_Stat w h ''/proc/0/stat'' \<noteq> None"
  shows "exe_pid ''/proc/self/exe'' = 0
       \<and> (\<exists>pids. pids = fst (match_loop w thisprog
                     (os_Getpid w [CallGeteuid, CallReadlink ''/proc/self/exe''])
                     [CallGeteuid, CallReadlink ''/proc/self/exe'', CallGetpid,
                      CallGlob ''/proc/*/exe''] exes [])
            \<and> 0 \<in> set pids
            \<and> Main w (''stop'' # args) =
                (None, reclaim w (terminate w
                   ([CallGeteuid, CallReadlink ''/proc/self/exe'', CallGetpid,
                     CallGlob ''/proc/*/exe''] @ map CallReadlink exes) pids)))
       \<and> (\<exists>pre post. snd (Main w (''stop'' # args)) = pre @ [CallSleep (2 * Second)] @ post
            \<and> CallStat ''/proc/0/stat'' \<in> set pre
            \<and> CallStat ''/proc/0/stat'' \<in> set post)
       \<and> (\<forall>sig. CallKill 0 sig \<notin> set (snd (Main w (''stop'' # args))))"
proof -
  let ?thispid = "os_Getpid w [CallGeteuid, CallReadlink ''/proc/self/exe'']"
  let ?tr3 = "[CallGeteuid, CallReadlink ''/proc/self/exe'', CallGetpid, CallGlob ''/proc/*/exe'']"
  let ?tr4 = "?tr3 @ map CallReadlink exes"
  let ?pids = "fst (match_loop w thisprog ?thispid ?tr3 exes [])"
  have zero: "exe_pid ''/proc/self/exe'' = 0" by (rule exe_pid_examples)
  from self obtain i where i: "i < length exes" "exes ! i = ''/proc/self/exe''"
    by (auto simp: in_set_conv_nth)
  have mem: "0 \<in> set ?pids"
    unfolding match_loop_pids using i link pid zero
    by (auto simp: image_iff intro!: bexI [of _ i])
  have main: "Main w (''stop'' # args) = (None, reclaim w (terminate w ?tr4 ?pids))"
    using root stop_discovered [of w "[CallGeteuid]" thisprog exes] link glob
    by (simp add: Main_def)
  from kill_loop_checks [OF mem, of w SIGTERM ?tr4] obtain A where A:
    "kill_loop w SIGTERM ?tr4 ?pids = ?tr4 @ A" "CallStat (proc_stat 0) \<in> set A"
    by blast
  from kill_loop_checks [OF mem, of w SIGKILL "?tr4 @ A @ [CallSleep (2 * Second)]"]
  obtain B where B:
    "kill_loop w SIGKILL (?tr4 @ A @ [CallSleep (2 * Second)]) ?pids
       = (?tr4 @ A @ [CallSleep (2 * Second)]) @ B"
    "CallStat (proc_stat 0) \<in> set B"
    by blast
  have "snd (Main w (''stop'' # args))
      = (?tr4 @ A) @ [CallSleep (2 * Second)] @ (B @ [CallSockRemoveAll, CallPidRemoveAll])"
    using main A(1) B(1) by (simp add: reclaim_eq terminate_def)
  moreover have "CallStat ''/proc/0/stat'' \<in> set (?tr4 @ A)"
    using A(2) by (simp add: proc_stat_0)
  moreover have "CallStat ''/proc/0/stat'' \<in> set (B @ [CallSockRemoveAll, CallPidRemoveAll])"
    using B(2) by (simp add: proc_stat_0)
  ultimately have checks: "\<exists>pre post.
      snd (Main w (''stop'' # args)) = pre @ [CallSleep (2 * Second)] @ post
      \<and> CallStat ''/proc/0/stat'' \<in> set pre \<and> CallStat ''/proc/0/stat'' \<in> set post"
    by blast
  have nokill: "CallKill 0 sig \<notin> set (snd (Main w (''stop'' # args)))" for sig
  proof
    assume k: "CallKill 0 sig \<in> set (snd (Main w (''stop'' # args)))"
    with main have "CallKill 0 sig \<in> set (terminate w ?tr4 ?pids)"
      by (auto simp: reclaim_eq)
    then have "CallKill 0 sig \<in> set (kill_loop w SIGTERM ?tr4 ?pids @ [CallSleep (2 * Second)])
             \<or> (\<exists>h. os_Stat w h (proc_stat 0) = None)"
      unfolding terminate_def by (rule kill_loop_needs_stat)
    then have "CallKill 0 sig \<in> set (kill_loop w SIGTERM ?tr4 ?pids)"
      using dead by (auto simp: proc_stat_0 simp del: not_None_eq)
    then have "CallKill 0 sig \<in> set ?tr4 \<or> (\<exists>h. os_Stat w h (proc_stat 0) = None)"
      by (rule kill_loop_needs_stat)
    with dead show False by (auto simp: proc_stat_0 simp del: not_None_eq)
  qed
  from zero mem main checks nokill show ?thesis by blast
qed

theorem C10_self_entry_witness:
  "os_Geteuid world_C [] = 0
   \<and> (\<forall>h. os_Readlink world_C h ''/proc/self/exe'' = Inr ''/usr/sbin/goesd'')
   \<and> filepath_Glob world_C [CallGeteuid, CallReadlink ''/proc/self/exe'', CallGetpid] ''/proc/*/exe''
       = Inr [''/proc/1/exe'', ''/proc/10/exe'', ''/proc/100/exe'', ''/proc/11/exe'',
              ''/proc/2/exe'', ''/proc/self/exe'', ''/proc/thread-self/exe'']
   \<and> ''/proc/self/exe'' \<in> set [''/proc/1/exe'', ''/proc/10/exe'', ''/proc/100/exe'',
        ''/proc/11/exe'', ''/proc/2/exe'', ''/proc/self/exe'', ''/proc/thread-self/exe'']
   \<and> os_Getpid world_C [CallGeteuid, CallReadlink ''/proc/self/exe''] = 100
   \<and> (\<forall>h. os_Stat world_C h ''/proc/0/stat'' \<noteq> None)
   \<and> fst (match_loop world_C ''/usr/sbin/goesd'' 100
            [CallGeteuid, CallReadlink ''/proc/self/exe'', CallGetpid, CallGlob ''/proc/*/exe'']
            [''/proc/1/exe'', ''/proc/10/exe'', ''/proc/100/exe'', ''/proc/11/exe'',
             ''/proc/2/exe'', ''/proc/self/exe'', ''/proc/thread-self/exe''] [])
       = [10, 11, 0, 0]
   \<and> Main world_C [''stop''] =
       (None,
        [CallGeteuid, CallReadlink ''/proc/self/exe'', CallGetpid, CallGlob ''/proc/*/exe'',
         CallReadlink ''/proc/1/exe'', CallReadlink ''/proc/10/exe'',
         CallReadlink ''/proc/100/exe'', CallReadlink ''/proc/11/exe'',
         CallReadlink ''/proc/2/exe'', CallReadlink ''/proc/self/exe'',
         CallReadlink ''/proc/thread-self/exe'',
         CallStat ''/proc/10/stat'', CallKill 10 SIGTERM,
         CallStat ''/proc/11/stat'', CallKill 11 SIGTERM,
         CallStat ''/proc/0/stat'', CallStat ''/proc/0/stat'',
         CallSleep 2000000000,
         CallStat ''/proc/10/stat'', CallStat ''/proc/11/stat'', CallKill 11 SIGKILL,
         CallStat ''/proc/0/stat'', CallStat ''/proc/0/stat'',
         CallSockRemoveAll, CallPidRemoveAll])
   \<and> (\<exists>pre post. snd (Main world_C [''stop'']) = pre @ [CallSleep (2 * Second)] @ post
            \<and> CallStat ''/proc/0/stat'' \<in> set pre
            \<and> CallStat ''/proc/0/stat'' \<in> set post)
   \<and> CallKill 0 SIGTERM \<notin> set (snd (Main world_C [''stop'']))
   \<and> CallKill 0 SIGKILL \<notin> set (snd (Main world_C [''stop'']))"
proof -
  have root: "os_Geteuid world_C [] = 0"
    and link: "\<forall>h. os_Readlink world_C h ''/proc/self/exe'' = Inr ''/usr/sbin/goesd''"
    and glob: "filepath_Glob world_C [CallGeteuid, CallReadlink ''/proc/self/exe'', CallGetpid]
       ''/proc/*/exe''
       = Inr [''/proc/1/exe'', ''/proc/10/exe'', ''/proc/100/exe'', ''/proc/11/exe'',
              ''/proc/2/exe'', ''/proc/self/exe'', ''/proc/thread-self/exe'']"
    and self: "''/proc/self/exe'' \<in> set [''/proc/1/exe'', ''/proc/10/exe'', ''/proc/100/exe'',
        ''/proc/11/exe'', ''/proc/2/exe'', ''/proc/self/exe'', ''/proc/thread-self/exe'']"
    and pid100: "os_Getpid world_C [CallGeteuid, CallReadlink ''/proc/self/exe''] = 100"
    and dead: "\<forall>h. os_Stat world_C h ''/proc/0/stat'' \<noteq> None"
    by (simp_all add: world_C_def world_A_def)
  from pid100 have pid: "os_Getpid world_C [CallGeteuid, CallReadlink ''/proc/self/exe''] \<noteq> 0"
    by simp
  have pids: "fst (match_loop world_C ''/usr/sbin/goesd'' 100
            [CallGeteuid, CallReadlink ''/proc/self/exe'', CallGetpid, CallGlob ''/proc/*/exe'']
            [''/proc/1/exe'', ''/proc/10/exe'', ''/proc/100/exe'', ''/proc/11/exe'',
             ''/proc/2/exe'', ''/proc/self/exe'', ''/proc/thread-self/exe''] [])
       = [10, 11, 0, 0]"
    by (simp add: world_C_def world_A_def exe_pid_examples)
  have run: "Main world_C [''stop''] =
       (None,
        [CallGeteuid, CallReadlink ''/proc/self/exe'', CallGetpid, CallGlob ''/proc/*/exe'',
         CallReadlink ''/proc/1/exe'', CallReadlink ''/proc/10/exe'',
         CallReadlink ''/proc/100/exe'', CallReadlink ''/proc/11/exe'',
         CallReadlink ''/proc/2/exe'', CallReadlink ''/proc/self/exe'',
         CallReadlink ''/proc/thread-self/exe'',
         CallStat ''/proc/10/stat'', CallKill 10 SIGTERM,
         CallStat ''/proc/11/stat'', CallKill 11 SIGTERM,
         CallStat ''/proc/0/stat'', CallStat ''/proc/0/stat'',
         CallSleep 2000000000,
         CallStat ''/proc/10/stat'', CallStat ''/proc/11/stat'', CallKill 11 SIGKILL,
         CallStat ''/proc/0/stat'', CallStat ''/proc/0/stat'',
         CallSockRemoveAll, CallPidRemoveAll])"
    by (simp add: Main_def stop_def terminate_def reclaim_def world_C_def world_A_def
        exe_pid_examples proc_stat_10 proc_stat_11 proc_stat_0 Second_def)
  note inst = C10_self_entry [OF root link glob self pid dead, of "[]"]
  from inst have checks: "\<exists>pre post.
      snd (Main world_C [''stop'']) = pre @ [CallSleep (2 * Second)] @ post
      \<and> CallStat ''/proc/0/stat'' \<in> set pre \<and> CallStat ''/proc/0/stat'' \<in> set post"
    by (elim conjE)
  from inst have k1: "CallKill 0 SIGTERM \<notin> set (snd (Main world_C [''stop'']))"
    and k2: "CallKill 0 SIGKILL \<notin> set (snd (Main world_C [''stop'']))"
    by blast+
  show ?thesis
    by (intro conjI root link glob self pid100 dead pids run checks k1 k2)
qed

end
